theory Spec2Isabelle
  imports Complex_Main "HOL-Library.Multiset"
begin

section \<open>Routing core of candelivers: constraints, distance matrix, route optimizer\<close>

text \<open>
  The Python sources embedded here are \<^verbatim>\<open>services/routing/src/constraints.py\<close>,
  \<^verbatim>\<open>services/routing/src/distance.py\<close> and \<^verbatim>\<open>services/routing/src/optimizer.py\<close>.

  Python's \<^verbatim>\<open>float\<close> is IEEE binary64. In \<^verbatim>\<open>constraints.py\<close>, whose results
  depend on how sums, quotients and products are rounded, every operation is rounded as
  binary64 rounds it. In \<^verbatim>\<open>distance.py\<close> and \<^verbatim>\<open>optimizer.py\<close> a float is the real it
  denotes and the operations are the exact ones: what is proved of them (the shape of the
  matrix, which order indices end up in which route, which fields 2-opt assigns, the
  routes returned for inputs whose arithmetic is exact) does not depend on rounding.
  Order indices, which the code takes from \<^verbatim>\<open>range(len(orders))\<close>, are \<^typ>\<open>nat\<close>.
\<close>

subsection \<open>binary64 arithmetic\<close>

text \<open>
  A finite binary64 value is the real it denotes. \<open>binary64_round\<close> rounds a real to the
  nearest value with a 53-bit significand, ties to the even significand, with the
  exponent of the leading bit not below -1022 (so the subnormal values are spaced
  2^-1074 apart). No upper bound is put on the exponent: a result of magnitude 2^1024 or
  more stands for the infinity of its sign, which is what binary64 returns for it.
  The sign of a zero is not recorded; no comparison or sum below depends on it.
\<close>

definition pow2 :: "int \<Rightarrow> real" where
  "pow2 k = (if 0 \<le> k then 2 ^ nat k else 1 / 2 ^ nat (- k))"

definition round_half_even :: "real \<Rightarrow> int" where
  "round_half_even y =
     (let f = \<lfloor>y\<rfloor>
      in if y - of_int f < 1 / 2 then f
         else if y - of_int f > 1 / 2 then f + 1
         else if even f then f else f + 1)"

definition binary64_exponent :: "real \<Rightarrow> int" where
  "binary64_exponent x = max (- 1022) \<lfloor>log 2 \<bar>x\<bar>\<rfloor>"

definition binary64_round :: "real \<Rightarrow> real" where
  "binary64_round x =
     (if x = 0 then 0
      else (let ulp = pow2 (binary64_exponent x - 52)
            in of_int (round_half_even (x / ulp)) * ulp))"

definition binary64_infinite :: "real \<Rightarrow> bool" where
  "binary64_infinite x \<longleftrightarrow> pow2 1024 \<le> \<bar>x\<bar>"

text \<open>
  The operations the constraints use. The second operand is always finite (a load, the
  break length, 60.0), the first may be an infinity that an earlier operation produced:
  an infinity plus a finite value, or times the positive 60.0, is that infinity. A finite
  value divided by 60.0 is finite.
\<close>

definition binary64_add :: "real \<Rightarrow> real \<Rightarrow> real" where
  "binary64_add x y = (if binary64_infinite x then x else binary64_round (x + y))"

definition binary64_div :: "real \<Rightarrow> real \<Rightarrow> real" where
  "binary64_div x y = binary64_round (x / y)"

definition binary64_mul :: "real \<Rightarrow> real \<Rightarrow> real" where
  "binary64_mul x y = (if binary64_infinite x then x else binary64_round (x * y))"

text \<open>
  An \<^verbatim>\<open>int\<close> operand of a float division is converted to the nearest binary64 value
  first; Python raises \<^verbatim>\<open>OverflowError\<close> when that is not finite.
\<close>

datatype py_error = OverflowError

definition int_to_binary64 :: "int \<Rightarrow> py_error + real" where
  "int_to_binary64 n =
     (let x = binary64_round (real_of_int n)
      in if binary64_infinite x then Inl OverflowError else Inr x)"

subsection \<open>constraints.py\<close>

text \<open>
  \<^verbatim>\<open>VehicleCapacityConstraint.validate\<close>: the \<^verbatim>\<open>for\<close> loop over the loads with its two
  running totals, each \<^verbatim>\<open>+=\<close> a binary64 addition; each of the two \<^verbatim>\<open>return False\<close> is
  a branch. The maxima and the loads are finite binary64 values.
\<close>

fun capacity_loop :: "real \<Rightarrow> real \<Rightarrow> real \<Rightarrow> real \<Rightarrow> (real \<times> real) list \<Rightarrow> bool" where
  "capacity_loop max_weight max_volume total_weight total_volume [] = True"
| "capacity_loop max_weight max_volume total_weight total_volume ((weight, volume) # rest) =
     (let total_weight' = binary64_add total_weight weight;
          total_volume' = binary64_add total_volume volume
      in if total_weight' > max_weight then False
         else if total_volume' > max_volume then False
         else capacity_loop max_weight max_volume total_weight' total_volume' rest)"

definition VehicleCapacityConstraint_validate :: "real \<Rightarrow> real \<Rightarrow> (real \<times> real) list \<Rightarrow> bool" where
  "VehicleCapacityConstraint_validate max_weight max_volume route_loads =
     capacity_loop max_weight max_volume 0 0 route_loads"

text \<open>
  \<^verbatim>\<open>DriverHoursConstraint\<close>: the three constructor arguments, finite binary64 values, and
  \<^verbatim>\<open>validate\<close>, whose arguments are whole minutes. Both divisions by 60.0 convert their
  \<^verbatim>\<open>int\<close> operand and come before the first test; the sum and the product of the break
  bound are rounded one after the other; the last comparison is between the \<^verbatim>\<open>int\<close>
  \<^verbatim>\<open>total_time_minutes\<close> and a float, which Python compares exactly.
\<close>

record DriverHoursConstraint =
  max_shift_hours :: real
  mandatory_break_hours :: real
  break_after_hours :: real

definition DriverHoursConstraint_default :: DriverHoursConstraint where
  "DriverHoursConstraint_default =
     \<lparr>max_shift_hours = 10, mandatory_break_hours = 1 / 2, break_after_hours = 5\<rparr>"

definition DriverHoursConstraint_validate ::
  "DriverHoursConstraint \<Rightarrow> int \<Rightarrow> int \<Rightarrow> py_error + bool" where
  "DriverHoursConstraint_validate self total_time_minutes driving_time_minutes =
     (case int_to_binary64 total_time_minutes of
        Inl e \<Rightarrow> Inl e
      | Inr total_float \<Rightarrow>
          (case int_to_binary64 driving_time_minutes of
             Inl e \<Rightarrow> Inl e
           | Inr driving_float \<Rightarrow>
               (let total_hours = binary64_div total_float 60;
                    driving_hours = binary64_div driving_float 60
                in if total_hours > max_shift_hours self then Inr False
                   else if driving_hours > break_after_hours self
                           \<and> real_of_int total_time_minutes
                               < binary64_mul
                                   (binary64_add driving_hours (mandatory_break_hours self)) 60
                        then Inr False
                   else Inr True)))"

subsection \<open>distance.py\<close>

type_synonym location = "real \<times> real"

definition EARTH_RADIUS_KM :: real where
  "EARTH_RADIUS_KM = 6371"

definition radians :: "real \<Rightarrow> real" where
  "radians x = x * pi / 180"

text \<open>
  \<^verbatim>\<open>DistanceMatrix.haversine\<close>, line by line. Over the reals the argument of the square
  root lies between 0 and 1 (lemma \<open>haversine_argument_range\<close> below), so the domain errors
  of \<^verbatim>\<open>math.sqrt\<close> and \<^verbatim>\<open>math.asin\<close> have no branch here.
\<close>

definition haversine :: "real \<Rightarrow> real \<Rightarrow> real \<Rightarrow> real \<Rightarrow> real" where
  "haversine lat1 lng1 lat2 lng2 =
     (let lat1_rad = radians lat1;
          lng1_rad = radians lng1;
          lat2_rad = radians lat2;
          lng2_rad = radians lng2;
          dlat = lat2_rad - lat1_rad;
          dlng = lng2_rad - lng1_rad;
          a = (sin (dlat / 2))\<^sup>2 + cos lat1_rad * cos lat2_rad * (sin (dlng / 2))\<^sup>2;
          c = 2 * arcsin (sqrt a)
      in EARTH_RADIUS_KM * c)"

definition distance_between :: "location \<Rightarrow> location \<Rightarrow> real" where
  "distance_between loc1 loc2 = haversine (fst loc1) (snd loc1) (fst loc2) (snd loc2)"

text \<open>
  The object state of \<^verbatim>\<open>DistanceMatrix\<close>: the flag and the dictionary \<^verbatim>\<open>_cache\<close>, keyed
  by the tuple of the locations. A matrix (\<^verbatim>\<open>np.zeros((n, n))\<close>) is a list of rows.
\<close>

record DistanceMatrix =
  use_cache :: bool
  cache :: "location list \<rightharpoonup> real list list"

definition DistanceMatrix_init :: "bool \<Rightarrow> DistanceMatrix" where
  "DistanceMatrix_init flag = \<lparr>use_cache = flag, cache = Map.empty\<rparr>"

definition set_entry :: "real list list \<Rightarrow> nat \<Rightarrow> nat \<Rightarrow> real \<Rightarrow> real list list" where
  \<comment> \<open>\<^verbatim>\<open>matrix[i][j] = x\<close>\<close>
  "set_entry matrix i j x = matrix[i := (matrix ! i)[j := x]]"

definition matrix_inner_step :: "location list \<Rightarrow> nat \<Rightarrow> nat \<Rightarrow> real list list \<Rightarrow> real list list" where
  \<comment> \<open>the body of the loop over \<^verbatim>\<open>j\<close>\<close>
  "matrix_inner_step locations i j matrix =
     (let (lat1, lng1) = locations ! i;
          (lat2, lng2) = locations ! j;
          distance = haversine lat1 lng1 lat2 lng2
      in set_entry (set_entry matrix i j distance) j i distance)"

definition matrix_outer_step :: "location list \<Rightarrow> nat \<Rightarrow> nat \<Rightarrow> real list list \<Rightarrow> real list list" where
  \<comment> \<open>\<^verbatim>\<open>for j in range(i + 1, n)\<close>\<close>
  "matrix_outer_step locations n i matrix =
     fold (matrix_inner_step locations i) [i + 1..<n] matrix"

definition build_matrix :: "location list \<Rightarrow> real list list" where
  \<comment> \<open>\<^verbatim>\<open>np.zeros((n, n))\<close>, then \<^verbatim>\<open>for i in range(n)\<close>\<close>
  "build_matrix locations =
     (let n = length locations;
          matrix = replicate n (replicate n 0)
      in fold (matrix_outer_step locations n) [0..<n] matrix)"

definition compute_distance_matrix ::
  "DistanceMatrix \<Rightarrow> location list \<Rightarrow> real list list \<times> DistanceMatrix" where
  "compute_distance_matrix self locations =
     (let cache_key = locations
      in case (if use_cache self then cache self cache_key else None) of
           Some cached \<Rightarrow> (cached, self)
         | None \<Rightarrow>
             (let matrix = build_matrix locations
              in if use_cache self
                 then (matrix, self\<lparr>cache := (cache self)(cache_key \<mapsto> matrix)\<rparr>)
                 else (matrix, self)))"

definition clear_cache :: "DistanceMatrix \<Rightarrow> DistanceMatrix" where
  "clear_cache self = self\<lparr>cache := Map.empty\<rparr>"

text \<open>
  The cache is written by \<^verbatim>\<open>compute_distance_matrix\<close> and \<^verbatim>\<open>clear_cache\<close> only, so in
  every state the object reaches each cached entry is the matrix built for its key.
\<close>

definition cache_consistent :: "DistanceMatrix \<Rightarrow> bool" where
  "cache_consistent self \<longleftrightarrow>
     (\<forall>key matrix. cache self key = Some matrix \<longrightarrow> matrix = build_matrix key)"

subsection \<open>optimizer.py: data\<close>

text \<open>
  The dataclasses. A \<^verbatim>\<open>datetime\<close> is an integer instant; the optimizer never reads the
  time window. \<^verbatim>\<open>Order.id\<close> and \<^verbatim>\<open>Vehicle.id\<close> are \<open>id_Order\<close> and \<open>id_Vehicle\<close>.
\<close>

record TimeWindow =
  earliest :: int
  latest :: int

record Order =
  id_Order :: string
  pickup_location :: location
  delivery_location :: location
  time_window :: TimeWindow
  weight_kg :: real
  volume_m3 :: real

record Vehicle =
  id_Vehicle :: string
  max_weight_kg :: real
  max_volume_m3 :: real
  start_location :: location
  end_location :: "location option"

record Route =
  vehicle_id :: string
  stops :: "nat list"
  total_distance :: real
  total_time_minutes :: real
  weight_used :: real
  volume_used :: real

text \<open>
  The state of a \<^verbatim>\<open>RouteOptimizer\<close> is its \<^verbatim>\<open>DistanceMatrix\<close> object; the constraint
  checker it also creates is never used by it, and \<^verbatim>\<open>average_speed_kmh\<close> is set once,
  to 40.0, and only read.
\<close>

record RouteOptimizer =
  distance_matrix :: DistanceMatrix

definition RouteOptimizer_init :: "bool \<Rightarrow> RouteOptimizer" where
  "RouteOptimizer_init use_distance_cache =
     \<lparr>distance_matrix = DistanceMatrix_init use_distance_cache\<rparr>"

definition average_speed_kmh :: real where
  "average_speed_kmh = 40"

subsection \<open>optimizer.py: location extraction and route metrics\<close>

definition append_if_new :: "location list \<Rightarrow> location \<Rightarrow> location list" where
  \<comment> \<open>\<^verbatim>\<open>if loc not in locations: locations.append(loc)\<close>\<close>
  "append_if_new locations loc = (if loc \<notin> set locations then locations @ [loc] else locations)"

definition extract_locations :: "Order list \<Rightarrow> Vehicle list \<Rightarrow> location list" where
  "extract_locations orders vehicles =
     (let locations = fold (\<lambda>vehicle locations. append_if_new locations (start_location vehicle))
                        vehicles []
      in fold (\<lambda>order locations.
                 append_if_new (append_if_new locations (pickup_location order))
                   (delivery_location order))
           orders locations)"

text \<open>
  The loop of \<^verbatim>\<open>_calculate_route_metrics\<close>. Its state is (\<^verbatim>\<open>total_distance\<close>,
  \<^verbatim>\<open>total_time\<close>, \<^verbatim>\<open>total_weight\<close>, \<^verbatim>\<open>total_volume\<close>, \<^verbatim>\<open>current_location\<close>),
  here the four sums and the location; \<^verbatim>\<open>current_time\<close> is written and never read.
  The two service times, 15 and 30 minutes, are added where the code adds them.
\<close>

fun metrics_loop ::
  "Order list \<Rightarrow> nat list \<Rightarrow> real \<times> real \<times> real \<times> real \<times> location
     \<Rightarrow> real \<times> real \<times> real \<times> real \<times> location" where
  "metrics_loop orders [] state = state"
| "metrics_loop orders (order_idx # rest)
     (distance_sum, time_sum, weight_sum, volume_sum, current_location) =
     (let order = orders ! order_idx;
          distance_to_pickup = distance_between current_location (pickup_location order);
          distance_sum1 = distance_sum + distance_to_pickup;
          travel_time1 = (distance_to_pickup / average_speed_kmh) * 60;
          time_sum1 = time_sum + travel_time1 + 15;
          distance_to_delivery =
            distance_between (pickup_location order) (delivery_location order);
          distance_sum2 = distance_sum1 + distance_to_delivery;
          travel_time2 = (distance_to_delivery / average_speed_kmh) * 60;
          time_sum2 = time_sum1 + travel_time2 + 30
      in metrics_loop orders rest
           (distance_sum2, time_sum2, weight_sum + weight_kg order,
            volume_sum + volume_m3 order, delivery_location order))"

definition calculate_route_metrics ::
  "nat list \<Rightarrow> Order list \<Rightarrow> Vehicle \<Rightarrow> real list list \<Rightarrow> Route" where
  "calculate_route_metrics order_indices orders vehicle matrix =
     (case metrics_loop orders order_indices (0, 0, 0, 0, start_location vehicle) of
        (distance_sum, time_sum, weight_sum, volume_sum, current_location) \<Rightarrow>
          (case end_location vehicle of
             Some end_loc \<Rightarrow>
               (let distance_to_end = distance_between current_location end_loc;
                    travel_time = (distance_to_end / average_speed_kmh) * 60
                in \<lparr>vehicle_id = id_Vehicle vehicle, stops = order_indices,
                    total_distance = distance_sum + distance_to_end,
                    total_time_minutes = time_sum + travel_time,
                    weight_used = weight_sum, volume_used = volume_sum\<rparr>)
           | None \<Rightarrow>
               \<lparr>vehicle_id = id_Vehicle vehicle, stops = order_indices,
                total_distance = distance_sum, total_time_minutes = time_sum,
                weight_used = weight_sum, volume_used = volume_sum\<rparr>))"

subsection \<open>optimizer.py: greedy construction\<close>

text \<open>
  The set \<^verbatim>\<open>unassigned\<close> is the list of its elements in iteration order; it starts as
  \<^verbatim>\<open>set(range(len(orders)))\<close>, which CPython iterates in ascending order, and
  \<^verbatim>\<open>remove\<close> keeps the order of the others. Every index read from it is below
  \<^verbatim>\<open>len(orders)\<close> (lemma \<open>nearest_neighbor_invariant\<close>), so \<^verbatim>\<open>orders[order_idx]\<close>
  never raises.

  \<open>select_best\<close> is the \<^verbatim>\<open>for order_idx in unassigned\<close> loop. Its state is the pair
  (\<^verbatim>\<open>best_order_idx\<close>, \<^verbatim>\<open>best_distance\<close>), \<open>None\<close> while they still are \<^verbatim>\<open>None\<close> and
  \<^verbatim>\<open>float("inf")\<close>, which every distance is below.
\<close>

fun select_best ::
  "Order list \<Rightarrow> Vehicle \<Rightarrow> real \<Rightarrow> real \<Rightarrow> location \<Rightarrow> nat list
     \<Rightarrow> (nat \<times> real) option \<Rightarrow> (nat \<times> real) option" where
  "select_best orders vehicle current_weight current_volume current_location [] best = best"
| "select_best orders vehicle current_weight current_volume current_location (order_idx # rest) best =
     (let order = orders ! order_idx;
          new_weight = current_weight + weight_kg order;
          new_volume = current_volume + volume_m3 order
      in if new_weight > max_weight_kg vehicle \<or> new_volume > max_volume_m3 vehicle
         then select_best orders vehicle current_weight current_volume current_location rest best
         else (let distance = distance_between current_location (pickup_location order)
               in if (case best of None \<Rightarrow> True
                      | Some (best_order_idx, best_distance) \<Rightarrow> distance < best_distance)
                  then select_best orders vehicle current_weight current_volume current_location
                         rest (Some (order_idx, distance))
                  else select_best orders vehicle current_weight current_volume current_location
                         rest best))"

lemma select_best_member:
  "select_best orders vehicle cw cv loc unassigned best = Some (idx, d) \<Longrightarrow>
     idx \<in> set unassigned \<or> best = Some (idx, d)"
  by (induction unassigned arbitrary: best) (auto simp: Let_def split: if_splits)

text \<open>
  \<open>assign_nearest\<close> is the \<^verbatim>\<open>while unassigned\<close> loop of one vehicle; it returns
  \<^verbatim>\<open>route_orders\<close> and what is left of \<^verbatim>\<open>unassigned\<close>.
\<close>

function assign_nearest ::
  "Order list \<Rightarrow> Vehicle \<Rightarrow> nat list \<Rightarrow> real \<Rightarrow> real \<Rightarrow> location \<Rightarrow> nat list
     \<Rightarrow> nat list \<times> nat list" where
  "assign_nearest orders vehicle route_orders current_weight current_volume current_location
     unassigned =
     (if unassigned = [] then (route_orders, unassigned)
      else (case select_best orders vehicle current_weight current_volume current_location
                   unassigned None of
              None \<Rightarrow> (route_orders, unassigned)
            | Some (best_order_idx, best_distance) \<Rightarrow>
                (let order = orders ! best_order_idx
                 in assign_nearest orders vehicle (route_orders @ [best_order_idx])
                      (current_weight + weight_kg order) (current_volume + volume_m3 order)
                      (delivery_location order) (remove1 best_order_idx unassigned))))"
  by pat_completeness auto
termination
proof (relation "measure (\<lambda>(orders, vehicle, route_orders, cw, cv, loc, unassigned).
                            length unassigned)")
  show "wf (measure (\<lambda>(orders, vehicle, route_orders, cw, cv, loc, unassigned).
                            length unassigned))"
    by simp
next
  fix orders :: "Order list" and vehicle :: Vehicle and route_orders :: "nat list"
    and current_weight current_volume :: real and current_location :: location
    and unassigned :: "nat list" and x2 :: "nat \<times> real" and best_order_idx :: nat
    and best_distance :: real and order :: Order
  assume ne: "unassigned \<noteq> []"
    and sel: "select_best orders vehicle current_weight current_volume current_location
                unassigned None = Some x2"
    and x2: "(best_order_idx, best_distance) = x2"
  have "best_order_idx \<in> set unassigned"
    using select_best_member [of orders vehicle current_weight current_volume current_location
        unassigned None best_order_idx best_distance] sel x2
    by simp
  then have "length (remove1 best_order_idx unassigned) < length unassigned"
    by (simp add: length_remove1) (cases unassigned; simp)
  then show "((orders, vehicle, route_orders @ [best_order_idx],
               current_weight + weight_kg order, current_volume + volume_m3 order,
               delivery_location order, remove1 best_order_idx unassigned),
              orders, vehicle, route_orders, current_weight, current_volume, current_location,
              unassigned)
             \<in> measure (\<lambda>(orders, vehicle, route_orders, cw, cv, loc, unassigned).
                            length unassigned)"
    by simp
qed

declare assign_nearest.simps [simp del]

text \<open>
  \<open>vehicle_loop\<close> is \<^verbatim>\<open>for vehicle in vehicles\<close> with its \<^verbatim>\<open>break\<close>; it returns
  \<^verbatim>\<open>routes\<close> and \<^verbatim>\<open>unassigned\<close>.
\<close>

fun vehicle_loop ::
  "Order list \<Rightarrow> real list list \<Rightarrow> Vehicle list \<Rightarrow> Route list \<Rightarrow> nat list
     \<Rightarrow> Route list \<times> nat list" where
  "vehicle_loop orders matrix [] routes unassigned = (routes, unassigned)"
| "vehicle_loop orders matrix (vehicle # rest) routes unassigned =
     (if unassigned = [] then (routes, unassigned)
      else (case assign_nearest orders vehicle [] 0 0 (start_location vehicle) unassigned of
              (route_orders, unassigned') \<Rightarrow>
                (if route_orders \<noteq> []
                 then vehicle_loop orders matrix rest
                        (routes @ [calculate_route_metrics route_orders orders vehicle matrix])
                        unassigned'
                 else vehicle_loop orders matrix rest routes unassigned')))"

text \<open>
  The salvage pass. \<open>try_vehicles\<close> is \<^verbatim>\<open>for i, vehicle in enumerate(vehicles)\<close> for one
  left-over order: the first pair that passes the test gets the order and ends the loop.
  The route tested with \<^verbatim>\<open>vehicles[i]\<close> is \<^verbatim>\<open>routes[i]\<close>.
\<close>

fun try_vehicles :: "Order \<Rightarrow> nat \<Rightarrow> (nat \<times> Vehicle) list \<Rightarrow> Route list \<Rightarrow> Route list" where
  "try_vehicles order order_idx [] routes = routes"
| "try_vehicles order order_idx ((i, vehicle) # rest) routes =
     (if i < length routes
      then (let route = routes ! i
            in if weight_used route + weight_kg order \<le> max_weight_kg vehicle
                  \<and> volume_used route + volume_m3 order \<le> max_volume_m3 vehicle
               then routes[i := route\<lparr>stops := stops route @ [order_idx],
                                      weight_used := weight_used route + weight_kg order,
                                      volume_used := volume_used route + volume_m3 order\<rparr>]
               else try_vehicles order order_idx rest routes)
      else try_vehicles order order_idx rest routes)"

fun salvage_loop :: "Order list \<Rightarrow> Vehicle list \<Rightarrow> nat list \<Rightarrow> Route list \<Rightarrow> Route list" where
  "salvage_loop orders vehicles [] routes = routes"
| "salvage_loop orders vehicles (order_idx # rest) routes =
     salvage_loop orders vehicles rest
       (try_vehicles (orders ! order_idx) order_idx (enumerate 0 vehicles) routes)"

definition nearest_neighbor_initial_solution ::
  "Order list \<Rightarrow> Vehicle list \<Rightarrow> real list list \<Rightarrow> Route list" where
  "nearest_neighbor_initial_solution orders vehicles matrix =
     (case vehicle_loop orders matrix vehicles [] [0..<length orders] of
        (routes, unassigned) \<Rightarrow> salvage_loop orders vehicles unassigned routes)"

subsection \<open>optimizer.py: 2-opt\<close>

text \<open>
  \<^verbatim>\<open>_calculate_route_distance\<close>: the sum runs over \<^verbatim>\<open>range(len(stops))\<close> and measures
  from (0.0, 0.0) to (0.0, i * 0.001); the stops themselves are not read.
\<close>

definition calculate_route_distance :: "nat list \<Rightarrow> real" where
  "calculate_route_distance stops_list =
     (if stops_list = [] then 0
      else sum_list (map (\<lambda>i. distance_between (0, 0) (0, real i * (1 / 1000)))
                       [0..<length stops_list]))"

definition reverse_segment :: "nat list \<Rightarrow> nat \<Rightarrow> nat \<Rightarrow> nat list" where
  \<comment> \<open>\<^verbatim>\<open>stops[:i + 1] + stops[i + 1 : j + 1][::-1] + stops[j + 1 :]\<close>\<close>
  "reverse_segment stops_list i j =
     take (i + 1) stops_list @ rev (drop (i + 1) (take (j + 1) stops_list))
       @ drop (j + 1) stops_list"

text \<open>
  The two \<^verbatim>\<open>for\<close> loops of one pass: the result is the first candidate that is shorter
  than \<^verbatim>\<open>stops\<close>, or \<open>None\<close> when the pass ends with \<^verbatim>\<open>improved\<close> still false.
\<close>

fun scan_j :: "nat list \<Rightarrow> nat \<Rightarrow> nat list \<Rightarrow> nat list option" where
  "scan_j stops_list i [] = None"
| "scan_j stops_list i (j # js) =
     (let new_stops = reverse_segment stops_list i j;
          old_distance = calculate_route_distance stops_list;
          new_distance = calculate_route_distance new_stops
      in if new_distance < old_distance then Some new_stops
         else scan_j stops_list i js)"

fun scan_i :: "nat list \<Rightarrow> nat list \<Rightarrow> nat list option" where
  "scan_i stops_list [] = None"
| "scan_i stops_list (i # is) =
     (case scan_j stops_list i [i + 2..<length stops_list] of
        Some new_stops \<Rightarrow> Some new_stops
      | None \<Rightarrow> scan_i stops_list is)"

definition two_opt_pass :: "nat list \<Rightarrow> nat list option" where
  "two_opt_pass stops_list = scan_i stops_list [0..<length stops_list - 1]"

text \<open>
  The \<^verbatim>\<open>while improved\<close> loop of one route. Each pass starts again from
  \<^verbatim>\<open>improved_route.stops\<close>, which is assigned only after the loop: a pass that finds a
  shorter candidate is followed by the same pass on the same stops. The loop may thus
  not return, and \<open>None\<close> is that outcome.
\<close>

partial_function (option) two_opt_while :: "nat list \<Rightarrow> nat list option" where
  "two_opt_while route_stops =
     (case two_opt_pass route_stops of
        None \<Rightarrow> Some route_stops
      | Some new_stops \<Rightarrow> two_opt_while route_stops)"

fun improve_with_2opt :: "Route list \<Rightarrow> real list list \<Rightarrow> Route list option" where
  "improve_with_2opt [] matrix = Some []"
| "improve_with_2opt (route # rest) matrix =
     (case two_opt_while (stops route) of
        None \<Rightarrow> None
      | Some new_stops \<Rightarrow>
          (case improve_with_2opt rest matrix of
             None \<Rightarrow> None
           | Some improved_routes \<Rightarrow> Some (route\<lparr>stops := new_stops\<rparr> # improved_routes)))"

subsection \<open>optimizer.py: optimize\<close>

text \<open>
  \<open>optimize\<close> returns the routes and the optimizer after the call, or \<open>None\<close> when the
  2-opt loop does not return.
\<close>

definition optimize ::
  "RouteOptimizer \<Rightarrow> Order list \<Rightarrow> Vehicle list \<Rightarrow> bool
     \<Rightarrow> (Route list \<times> RouteOptimizer) option" where
  "optimize self orders vehicles improve_with_2opt_flag =
     (if orders = [] then Some ([], self)
      else (let locations = extract_locations orders vehicles
            in case compute_distance_matrix (distance_matrix self) locations of
                 (matrix, dm) \<Rightarrow>
                   (let self' = self\<lparr>distance_matrix := dm\<rparr>;
                        routes = nearest_neighbor_initial_solution orders vehicles matrix
                    in if improve_with_2opt_flag
                       then (case improve_with_2opt routes matrix of
                               None \<Rightarrow> None
                             | Some improved \<Rightarrow> Some (improved, self'))
                       else Some (routes, self'))))"

subsection \<open>The travel distance of a stop sequence, as the specification words it\<close>

text \<open>
  This definition is not taken from the code: it writes out "the true sum of stop-to-stop
  haversine distances over the real pickup and delivery coordinates of the orders in the
  sequence", to be compared with \<open>calculate_route_distance\<close>. The places visited are
  the pickup and then the delivery location of each stop, in sequence order.
\<close>

definition stop_locations :: "Order list \<Rightarrow> nat list \<Rightarrow> location list" where
  "stop_locations orders stops_list =
     concat (map (\<lambda>i. [pickup_location (orders ! i), delivery_location (orders ! i)]) stops_list)"

fun path_length :: "location list \<Rightarrow> real" where
  "path_length (a # b # rest) = distance_between a b + path_length (b # rest)"
| "path_length [a] = 0"
| "path_length [] = 0"

definition spec_route_distance :: "Order list \<Rightarrow> nat list \<Rightarrow> real" where
  "spec_route_distance orders stops_list = path_length (stop_locations orders stops_list)"

definition spec_total_distance :: "Order list \<Rightarrow> Route list \<Rightarrow> real" where
  "spec_total_distance orders routes =
     sum_list (map (\<lambda>route. spec_route_distance orders (stops route)) routes)"

subsection \<open>Notions used to state the properties of the routes\<close>

text \<open>All stops of a list of routes, route after route.\<close>

definition all_stops :: "Route list \<Rightarrow> nat list" where
  "all_stops routes = concat (map stops routes)"


text \<open>
  The cumulative weight and volume of the first \<open>k\<close> stops of a stop sequence: the sums
  of the weights and of the volumes of the orders they name.
\<close>

definition prefix_weight :: "Order list \<Rightarrow> nat list \<Rightarrow> nat \<Rightarrow> real" where
  "prefix_weight orders stops_list k =
     sum_list (map (\<lambda>i. weight_kg (orders ! i)) (take k stops_list))"

definition prefix_volume :: "Order list \<Rightarrow> nat list \<Rightarrow> nat \<Rightarrow> real" where
  "prefix_volume orders stops_list k =
     sum_list (map (\<lambda>i. volume_m3 (orders ! i)) (take k stops_list))"

text \<open>
  Every prefix of a stop sequence that holds at least one stop is within the weight and
  the volume capacity of a vehicle.
\<close>

definition prefixes_within_capacity :: "Order list \<Rightarrow> Vehicle \<Rightarrow> nat list \<Rightarrow> bool" where
  "prefixes_within_capacity orders vehicle stops_list \<longleftrightarrow>
     (\<forall>k\<in>{1..length stops_list}.
        prefix_weight orders stops_list k \<le> max_weight_kg vehicle
        \<and> prefix_volume orders stops_list k \<le> max_volume_m3 vehicle)"

text \<open>
  The running total of a list of loads as the capacity loop accumulates it: from 0.0, one
  binary64 addition for each load, left to right.
\<close>

definition running_total :: "real list \<Rightarrow> real" where
  "running_total xs = foldl binary64_add 0 xs"

text \<open>The (weight, volume) loads of a stop sequence, as \<^verbatim>\<open>validate\<close> takes them.\<close>

definition stop_loads :: "Order list \<Rightarrow> nat list \<Rightarrow> (real \<times> real) list" where
  "stop_loads orders stops_list =
     map (\<lambda>i. (weight_kg (orders ! i), volume_m3 (orders ! i))) stops_list"

text \<open>
  A fleet of three vehicles and three orders, each order picked up and delivered at one
  place. Nothing fits the first vehicle; the second vehicle starts where order 0 is and
  can carry it but nothing more; the third starts where order 1 is and can carry one of
  the two light orders. \<open>example_routes\<close> is what \<^verbatim>\<open>optimize\<close> returns for them (lemma
  \<open>example_optimize\<close>).
\<close>

definition example_vehicles :: "Vehicle list" where
  "example_vehicles =
     [\<lparr>id_Vehicle = ''vA'', max_weight_kg = 1, max_volume_m3 = 100,
       start_location = (0, 0), end_location = None\<rparr>,
      \<lparr>id_Vehicle = ''vB'', max_weight_kg = 100, max_volume_m3 = 100,
       start_location = (0, 0), end_location = None\<rparr>,
      \<lparr>id_Vehicle = ''vC'', max_weight_kg = 10, max_volume_m3 = 100,
       start_location = (0, 90), end_location = None\<rparr>]"

definition example_orders :: "Order list" where
  "example_orders =
     [\<lparr>id_Order = ''o0'', pickup_location = (0, 0), delivery_location = (0, 0),
       time_window = \<lparr>earliest = 0, latest = 720\<rparr>, weight_kg = 95, volume_m3 = 1\<rparr>,
      \<lparr>id_Order = ''o1'', pickup_location = (0, 90), delivery_location = (0, 90),
       time_window = \<lparr>earliest = 0, latest = 720\<rparr>, weight_kg = 8, volume_m3 = 1\<rparr>,
      \<lparr>id_Order = ''o2'', pickup_location = (0, 45), delivery_location = (0, 45),
       time_window = \<lparr>earliest = 0, latest = 720\<rparr>, weight_kg = 8, volume_m3 = 1\<rparr>]"

definition example_routes :: "Route list" where
  "example_routes =
     [\<lparr>vehicle_id = ''vB'', stops = [0], total_distance = 0, total_time_minutes = 45,
       weight_used = 95, volume_used = 1\<rparr>,
      \<lparr>vehicle_id = ''vC'', stops = [1, 2], total_distance = 0, total_time_minutes = 45,
       weight_used = 16, volume_used = 2\<rparr>]"

subsection \<open>Facts about binary64 rounding\<close>

lemma pow2_pos: "0 < pow2 k"
  by (simp add: pow2_def)

lemma pow2_powr: "pow2 k = 2 powr (real_of_int k)"
  by (simp add: pow2_def powr_real_of_int divide_inverse)

lemma pow2_mono: "a \<le> b \<Longrightarrow> pow2 a \<le> pow2 b"
  unfolding pow2_powr by (rule powr_mono) simp_all

lemma binary64_exponent_eq:
  assumes "pow2 e \<le> \<bar>x\<bar>" "\<bar>x\<bar> < pow2 (e + 1)" "- 1022 \<le> e"
  shows "binary64_exponent x = e"
proof -
  have pos: "0 < \<bar>x\<bar>"
    using assms(1) pow2_pos [of e] by linarith
  have "\<lfloor>log 2 \<bar>x\<bar>\<rfloor> = e"
    using assms(1,2) pos by (simp add: floor_log_eq_powr_iff pow2_powr)
  then show ?thesis using assms(3) by (simp add: binary64_exponent_def)
qed

lemma binary64_round_eval:
  assumes "pow2 e \<le> \<bar>x\<bar>" "\<bar>x\<bar> < pow2 (e + 1)" "- 1022 \<le> e"
  shows "binary64_round x = of_int (round_half_even (x / pow2 (e - 52))) * pow2 (e - 52)"
proof -
  have "x \<noteq> 0"
    using assms(1) pow2_pos [of e] by auto
  then show ?thesis
    by (simp add: binary64_round_def binary64_exponent_eq [OF assms] Let_def)
qed

lemma round_half_even_of_int [simp]: "round_half_even (of_int m) = m"
  by (simp add: round_half_even_def)

lemma binary64_round_int:
  assumes "x \<in> \<int>" and "\<bar>x\<bar> \<le> 9007199254740992"
  shows "binary64_round x = x"
proof (cases "x = 0")
  case True
  then show ?thesis by (simp add: binary64_round_def)
next
  case False
  obtain n :: int where n: "x = of_int n" using assms(1) by (auto elim: Ints_cases)
  have n0: "n \<noteq> 0" using False n by simp
  then have "1 \<le> \<bar>n\<bar>" by simp
  then have a1: "1 \<le> \<bar>x\<bar>" unfolding n by (metis of_int_1_le_iff of_int_abs)
  define e where "e = \<lfloor>log 2 \<bar>x\<bar>\<rfloor>"
  have bounds: "pow2 e \<le> \<bar>x\<bar>" "\<bar>x\<bar> < pow2 (e + 1)"
    using a1 floor_log_eq_powr_iff [of "\<bar>x\<bar>" 2 e] by (simp_all add: e_def pow2_powr)
  have e0: "0 \<le> e"
    using a1 by (simp add: e_def)
  have e53: "e \<le> 53"
  proof (rule ccontr)
    assume "\<not> e \<le> 53"
    then have "54 \<le> e" by simp
    then have "pow2 54 \<le> pow2 e"
      by (rule pow2_mono)
    then show False using bounds(1) assms(2) by (simp add: pow2_def)
  qed
  have ex: "binary64_exponent x = e"
    using bounds e0 by (intro binary64_exponent_eq) simp_all
  have "\<exists>m::int. x / pow2 (e - 52) = of_int m"
  proof (cases "e \<le> 52")
    case True
    then have "x / pow2 (e - 52) = of_int (n * 2 ^ nat (52 - e))"
      by (simp add: pow2_def n)
    then show ?thesis by blast
  next
    case False
    then have e: "e = 53" using e53 by simp
    then have "\<bar>x\<bar> = 9007199254740992"
      using bounds(1) assms(2) by (simp add: pow2_def)
    then have "x / pow2 (e - 52) = of_int 4503599627370496 \<or> x / pow2 (e - 52) = of_int (- 4503599627370496)"
      using e by (auto simp: pow2_def abs_if split: if_splits)
    then show ?thesis by blast
  qed
  then obtain m :: int where m: "x / pow2 (e - 52) = of_int m" by blast
  have "binary64_round x = of_int (round_half_even (x / pow2 (e - 52))) * pow2 (e - 52)"
    using False by (simp add: binary64_round_def ex Let_def)
  also have "\<dots> = (x / pow2 (e - 52)) * pow2 (e - 52)"
    by (simp add: m)
  also have "\<dots> = x"
    using pow2_pos [of "e - 52"] by simp
  finally show ?thesis .
qed

subsection \<open>Capacity validation\<close>

lemma capacity_loop_running_totals:
  "capacity_loop mw mv tw tv loads \<longleftrightarrow>
     (\<forall>k\<in>{1..length loads}.
        foldl binary64_add tw (map fst (take k loads)) \<le> mw
        \<and> foldl binary64_add tv (map snd (take k loads)) \<le> mv)"
proof (induction loads arbitrary: tw tv)
  case Nil
  show ?case by simp
next
  case (Cons p rest)
  obtain w v where p: "p = (w, v)" by (cases p)
  let ?P = "\<lambda>k. foldl binary64_add tw (map fst (take k (p # rest))) \<le> mw
                \<and> foldl binary64_add tv (map snd (take k (p # rest))) \<le> mv"
  have split: "(\<forall>k\<in>{1..length (p # rest)}. ?P k)
                 \<longleftrightarrow> ?P 1 \<and> (\<forall>k\<in>{1..length rest}. ?P (Suc k))"
  proof
    assume all: "\<forall>k\<in>{1..length (p # rest)}. ?P k"
    have "?P 1" using all by (simp del: take_Suc_Cons)
    moreover have "\<forall>k\<in>{1..length rest}. ?P (Suc k)"
      using all by (simp del: take_Suc_Cons)
    ultimately show "?P 1 \<and> (\<forall>k\<in>{1..length rest}. ?P (Suc k))" by blast
  next
    assume h: "?P 1 \<and> (\<forall>k\<in>{1..length rest}. ?P (Suc k))"
    show "\<forall>k\<in>{1..length (p # rest)}. ?P k"
    proof
      fix k assume k: "k \<in> {1..length (p # rest)}"
      show "?P k"
      proof (cases "k = 1")
        case True
        then show ?thesis using h by blast
      next
        case False
        then obtain k' where k': "k = Suc k'" "k' \<in> {1..length rest}"
          using k by (cases k) auto
        then show ?thesis using h by blast
      qed
    qed
  qed
  have "capacity_loop mw mv tw tv (p # rest) \<longleftrightarrow>
          binary64_add tw w \<le> mw \<and> binary64_add tv v \<le> mv
          \<and> capacity_loop mw mv (binary64_add tw w) (binary64_add tv v) rest"
    by (auto simp: p Let_def)
  also have "\<dots> \<longleftrightarrow> ?P 1 \<and> (\<forall>k\<in>{1..length rest}. ?P (Suc k))"
    by (simp add: Cons.IH p)
  finally show ?case using split by simp
qed

lemma not_infinite_small [simp]: "\<bar>x\<bar> \<le> 9007199254740992 \<Longrightarrow> \<not> binary64_infinite x"
proof -
  assume "\<bar>x\<bar> \<le> 9007199254740992"
  moreover have "pow2 54 \<le> pow2 1024" by (rule pow2_mono) simp
  moreover have "(9007199254740992::real) < pow2 54" by (simp add: pow2_def)
  ultimately show ?thesis by (simp add: binary64_infinite_def)
qed

lemma binary64_add_int:
  "x \<in> \<int> \<Longrightarrow> y \<in> \<int> \<Longrightarrow> \<bar>x\<bar> \<le> 9007199254740992 \<Longrightarrow> \<bar>x + y\<bar> \<le> 9007199254740992
     \<Longrightarrow> binary64_add x y = x + y"
  by (simp add: binary64_add_def binary64_round_int)



text \<open>
  Two inputs at which \<^verbatim>\<open>validate\<close> and the sums of the loads disagree. With the maximum
  weight 2^53 and the weights 2^53 and 1.0, the second addition returns 2^53 again and
  \<^verbatim>\<open>validate\<close> returns true, though the sum of the two weights exceeds the maximum.
\<close>

lemma capacity_validate_absorbs_small_load:
  "VehicleCapacityConstraint_validate 9007199254740992 1
     [(9007199254740992, 0), (1, 0)]
   \<and> \<not> sum_list (map fst (take 2 [(9007199254740992, 0), (1, 0)])) \<le> (9007199254740992 :: real)"
proof -
  have tie: "binary64_round (9007199254740992 + 1) = 9007199254740992"
    by (subst binary64_round_eval [where e = 53]) (simp_all add: pow2_def round_half_even_def)
  have a: "binary64_add 0 9007199254740992 = 9007199254740992"
    by (simp add: binary64_add_int)
  have z: "binary64_add 0 0 = 0"
    by (simp add: binary64_add_int)
  have b: "binary64_add 9007199254740992 1 = 9007199254740992"
    using tie by (simp add: binary64_add_def)
  show ?thesis
    by (simp add: VehicleCapacityConstraint_validate_def Let_def a z b)
qed

text \<open>
  With the maximum weight 0.9 and the weights 0.2, 0.4 and 0.3 (each the binary64 value
  nearest to the decimal), the running totals are 0.2, 0.6000000000000001 and
  0.9000000000000001, and \<^verbatim>\<open>validate\<close> returns false, though the sum of every prefix is
  at most the maximum.
\<close>

lemma capacity_validate_rounds_above_maximum:
  "\<not> VehicleCapacityConstraint_validate (binary64_round (9 / 10)) 1
       [(binary64_round (2 / 10), 0), (binary64_round (4 / 10), 0), (binary64_round (3 / 10), 0)]
   \<and> binary64_round (2 / 10) \<le> binary64_round (9 / 10)
   \<and> binary64_round (2 / 10) + binary64_round (4 / 10) \<le> binary64_round (9 / 10)
   \<and> binary64_round (2 / 10) + binary64_round (4 / 10) + binary64_round (3 / 10)
       \<le> binary64_round (9 / 10)"
proof -
  have r02: "binary64_round (2 / 10) = 7205759403792794 / 2 ^ 55"
    by (subst binary64_round_eval [where e = "- 3"]) (simp_all add: pow2_def round_half_even_def)
  have r04: "binary64_round (4 / 10) = 7205759403792794 / 2 ^ 54"
    by (subst binary64_round_eval [where e = "- 2"]) (simp_all add: pow2_def round_half_even_def)
  have r03: "binary64_round (3 / 10) = 5404319552844595 / 2 ^ 54"
    by (subst binary64_round_eval [where e = "- 2"]) (simp_all add: pow2_def round_half_even_def)
  have r09: "binary64_round (9 / 10) = 8106479329266893 / 2 ^ 53"
    by (subst binary64_round_eval [where e = "- 1"]) (simp_all add: pow2_def round_half_even_def)
  have z: "binary64_add 0 0 = 0"
    by (simp add: binary64_add_int)
  have s1: "binary64_add 0 (binary64_round (2 / 10)) = 7205759403792794 / 2 ^ 55"
  proof -
    have "binary64_round (7205759403792794 / 2 ^ 55) = 7205759403792794 / 2 ^ 55"
      by (subst binary64_round_eval [where e = "- 3"]) (simp_all add: pow2_def round_half_even_def)
    then show ?thesis unfolding r02 by (simp add: binary64_add_def)
  qed
  have s2: "binary64_add (7205759403792794 / 2 ^ 55) (binary64_round (4 / 10))
              = 5404319552844596 / 2 ^ 53"
  proof -
    have "binary64_round (7205759403792794 / 2 ^ 55 + 7205759403792794 / 2 ^ 54)
            = 5404319552844596 / 2 ^ 53"
      by (subst binary64_round_eval [where e = "- 1"]) (simp_all add: pow2_def round_half_even_def)
    moreover have "\<not> binary64_infinite (7205759403792794 / 2 ^ 55)"
      by (rule not_infinite_small) simp
    ultimately show ?thesis unfolding r04 by (simp add: binary64_add_def)
  qed
  have s3: "binary64_add (5404319552844596 / 2 ^ 53) (binary64_round (3 / 10))
              = 8106479329266894 / 2 ^ 53"
  proof -
    have "binary64_round (5404319552844596 / 2 ^ 53 + 5404319552844595 / 2 ^ 54)
            = 8106479329266894 / 2 ^ 53"
      by (subst binary64_round_eval [where e = "- 1"]) (simp_all add: pow2_def round_half_even_def)
    moreover have "\<not> binary64_infinite (5404319552844596 / 2 ^ 53)"
      by (rule not_infinite_small) simp
    ultimately show ?thesis unfolding r03 by (simp add: binary64_add_def)
  qed
  have c1: "\<not> 7205759403792794 / 2 ^ 55 > binary64_round (9 / 10)"
    unfolding r09 by simp
  have c2: "\<not> 5404319552844596 / 2 ^ 53 > binary64_round (9 / 10)"
    unfolding r09 by simp
  have c3: "8106479329266894 / 2 ^ 53 > binary64_round (9 / 10)"
    unfolding r09 by simp
  have c0: "\<not> (0::real) > 1" by simp
  have code: "\<not> VehicleCapacityConstraint_validate (binary64_round (9 / 10)) 1
       [(binary64_round (2 / 10), 0), (binary64_round (4 / 10), 0), (binary64_round (3 / 10), 0)]"
    unfolding VehicleCapacityConstraint_validate_def capacity_loop.simps Let_def s1 s2 s3 z
    using c0 c1 c2 c3 by (simp only: if_True if_False simp_thms)
  have e1: "binary64_round (2 / 10) \<le> binary64_round (9 / 10)"
    unfolding r02 r09 by simp
  have e2: "binary64_round (2 / 10) + binary64_round (4 / 10) \<le> binary64_round (9 / 10)"
    unfolding r02 r04 r09 by simp
  have e3: "binary64_round (2 / 10) + binary64_round (4 / 10) + binary64_round (3 / 10)
              \<le> binary64_round (9 / 10)"
    unfolding r02 r04 r03 r09 by simp
  show ?thesis
    using code e1 e2 e3 by blast
qed


subsection \<open>Driver hours validation\<close>

lemma int_to_binary64_exact:
  "\<bar>n\<bar> \<le> 9007199254740992 \<Longrightarrow> int_to_binary64 n = Inr (real_of_int n)"
proof -
  assume n: "\<bar>n\<bar> \<le> 9007199254740992"
  then have b: "\<bar>real_of_int n\<bar> \<le> 9007199254740992"
    by (metis of_int_abs of_int_le_iff of_int_numeral)
  then have "binary64_round (real_of_int n) = real_of_int n"
    by (intro binary64_round_int) simp_all
  then show ?thesis
    using b by (simp add: int_to_binary64_def)
qed

lemma int_to_binary64_overflow:
  "int_to_binary64 n = Inl OverflowError
     \<Longrightarrow> DriverHoursConstraint_validate self n driving_minutes = Inl OverflowError"
  by (simp add: DriverHoursConstraint_validate_def)




subsection \<open>Facts about the haversine formula\<close>

lemma haversine_same [simp]: "haversine lat lng lat lng = 0"
  by (simp add: haversine_def)

lemma distance_between_same [simp]: "distance_between loc loc = 0"
  by (simp add: distance_between_def)

lemma sin_half_diff_sq: "(sin ((x - y) / 2))\<^sup>2 = (sin ((y - x) / 2))\<^sup>2" for x y :: real
proof -
  have "(x - y) / 2 = - ((y - x) / 2)" by (simp add: field_simps)
  then have "sin ((x - y) / 2) = - sin ((y - x) / 2)"
    by (metis sin_minus)
  then show ?thesis by simp
qed

lemma haversine_sym: "haversine lat1 lng1 lat2 lng2 = haversine lat2 lng2 lat1 lng1"
  unfolding haversine_def Let_def
  by (simp only: sin_half_diff_sq [of "radians lat2" "radians lat1"]
        sin_half_diff_sq [of "radians lng2" "radians lng1"] mult.commute [of "cos (radians lat1)"])

lemma haversine_argument_identity:
  "(sin ((b - a) / 2))\<^sup>2 + cos a * cos b * (sin (d / 2))\<^sup>2
     = (1 - (sin a * sin b + cos a * cos b * cos d)) / 2" for a b d :: real
proof -
  have h: "(sin (x / 2))\<^sup>2 = (1 - cos x) / 2" for x :: real
    using cos_double_sin [of "x / 2"] by simp
  show ?thesis
    unfolding h cos_diff by (simp add: field_simps)
qed

lemma unit_dot_bound:
  "\<bar>sin a * sin b + cos a * cos b * cos d\<bar> \<le> 1" for a b d :: real
proof -
  have c: "\<bar>cos d\<bar> \<le> 1" by simp
  have "\<bar>sin a * sin b + cos a * cos b * cos d\<bar>
          \<le> \<bar>sin a * sin b\<bar> + \<bar>cos a * cos b\<bar> * \<bar>cos d\<bar>"
    by (metis abs_mult abs_triangle_ineq)
  also have "\<dots> \<le> \<bar>sin a * sin b\<bar> + \<bar>cos a * cos b\<bar>"
    using c by (simp add: mult_left_le)
  also have "\<dots> \<le> 1"
  proof -
    have "0 \<le> (\<bar>sin a\<bar> - \<bar>sin b\<bar>)\<^sup>2 + (\<bar>cos a\<bar> - \<bar>cos b\<bar>)\<^sup>2" by simp
    also have "\<dots> = ((sin a)\<^sup>2 + (cos a)\<^sup>2) + ((sin b)\<^sup>2 + (cos b)\<^sup>2)
                      - 2 * (\<bar>sin a\<bar> * \<bar>sin b\<bar> + \<bar>cos a\<bar> * \<bar>cos b\<bar>)"
      by (simp add: power2_diff algebra_simps)
    also have "\<dots> = 2 - 2 * (\<bar>sin a * sin b\<bar> + \<bar>cos a * cos b\<bar>)"
      by (simp add: abs_mult)
    finally show ?thesis by simp
  qed
  finally show ?thesis .
qed

lemma haversine_argument_range:
  "0 \<le> (sin ((b - a) / 2))\<^sup>2 + cos a * cos b * (sin (d / 2))\<^sup>2
   \<and> (sin ((b - a) / 2))\<^sup>2 + cos a * cos b * (sin (d / 2))\<^sup>2 \<le> 1" for a b d :: real
  using unit_dot_bound [of a b d] unfolding haversine_argument_identity
  by (simp add: abs_le_iff)


lemma haversine_nonneg: "0 \<le> haversine lat1 lng1 lat2 lng2"
proof -
  let ?a = "(sin ((radians lat2 - radians lat1) / 2))\<^sup>2
              + cos (radians lat1) * cos (radians lat2)
                * (sin ((radians lng2 - radians lng1) / 2))\<^sup>2"
  have range: "0 \<le> ?a \<and> ?a \<le> 1"
    by (rule haversine_argument_range)
  then have "0 \<le> sqrt ?a" and "sqrt ?a \<le> 1"
    by (simp_all add: real_sqrt_le_1_iff)
  then have "0 \<le> arcsin (sqrt ?a)"
    by (intro arcsin_nonneg) simp
  then show ?thesis
    by (simp add: haversine_def Let_def EARTH_RADIUS_KM_def)
qed

lemma distance_between_nonneg: "0 \<le> distance_between loc1 loc2"
  unfolding distance_between_def by (rule haversine_nonneg)

lemma distance_between_not_neg [simp]: "\<not> distance_between loc1 loc2 < 0"
  using distance_between_nonneg [of loc1 loc2] by simp

lemma haversine_equator:
  assumes "0 \<le> lng" "lng \<le> 180"
  shows "haversine 0 0 0 lng = EARTH_RADIUS_KM * radians lng"
proof -
  let ?y = "radians lng / 2"
  have lo: "0 \<le> ?y" using assms(1) by (simp add: radians_def)
  have "lng * pi \<le> 180 * pi" using assms(2) by simp
  then have hi: "?y \<le> pi / 2" by (simp add: radians_def)
  have "0 \<le> sin ?y"
    using lo hi by (intro sin_ge_zero) (use pi_ge_zero in linarith)+
  then have "sqrt ((sin ?y)\<^sup>2) = sin ?y" by simp
  moreover have "arcsin (sin ?y) = ?y"
    using lo hi by (intro arcsin_sin) (use pi_ge_zero in linarith)+
  ultimately show ?thesis
    by (simp add: haversine_def Let_def radians_def)
qed

subsection \<open>The matrix built by the two loops\<close>

definition square :: "nat \<Rightarrow> real list list \<Rightarrow> bool" where
  "square n matrix \<longleftrightarrow> length matrix = n \<and> (\<forall>i<n. length (matrix ! i) = n)"

lemma square_set_entry: "square n matrix \<Longrightarrow> square n (set_entry matrix i j x)"
proof (cases "i < length matrix")
  case True
  assume "square n matrix"
  then show ?thesis using True
    by (auto simp: square_def set_entry_def nth_list_update)
next
  case False
  assume "square n matrix"
  then show ?thesis using False
    by (simp add: square_def set_entry_def)
qed

lemma nth_set_entry:
  "square n matrix \<Longrightarrow> i < n \<Longrightarrow> j < n \<Longrightarrow> a < n \<Longrightarrow> b < n \<Longrightarrow>
     set_entry matrix i j x ! a ! b = (if a = i \<and> b = j then x else matrix ! a ! b)"
  by (auto simp: square_def set_entry_def nth_list_update)

lemma square_inner_step: "square n matrix \<Longrightarrow> square n (matrix_inner_step locations i j matrix)"
  by (simp add: matrix_inner_step_def Let_def square_set_entry split: prod.splits)

lemma nth_inner_step:
  assumes "square n matrix" "i < n" "j < n" "a < n" "b < n"
  shows "matrix_inner_step locations i j matrix ! a ! b =
           (if (a = i \<and> b = j) \<or> (a = j \<and> b = i)
            then distance_between (locations ! i) (locations ! j)
            else matrix ! a ! b)"
proof -
  let ?d = "distance_between (locations ! i) (locations ! j)"
  have unfold: "matrix_inner_step locations i j matrix
                  = set_entry (set_entry matrix i j ?d) j i ?d"
    by (simp add: matrix_inner_step_def Let_def distance_between_def split: prod.splits)
  have sq: "square n (set_entry matrix i j ?d)"
    using assms(1) by (rule square_set_entry)
  have outer: "set_entry (set_entry matrix i j ?d) j i ?d ! a ! b
                 = (if a = j \<and> b = i then ?d else set_entry matrix i j ?d ! a ! b)"
    using sq assms(3,2,4,5) by (rule nth_set_entry)
  have inner: "set_entry matrix i j ?d ! a ! b = (if a = i \<and> b = j then ?d else matrix ! a ! b)"
    using assms by (rule nth_set_entry)
  show ?thesis
    unfolding unfold outer inner by argo
qed

lemma fold_inner_step:
  assumes "square n matrix" "i < n" "\<forall>j\<in>set js. j < n" "a < n" "b < n"
  shows "square n (fold (matrix_inner_step locations i) js matrix)
         \<and> fold (matrix_inner_step locations i) js matrix ! a ! b =
             (if a = i \<and> b \<in> set js then distance_between (locations ! i) (locations ! b)
              else if b = i \<and> a \<in> set js then distance_between (locations ! i) (locations ! a)
              else matrix ! a ! b)"
  using assms
proof (induction js arbitrary: matrix)
  case Nil
  then show ?case by simp
next
  case (Cons j js)
  let ?m = "matrix_inner_step locations i j matrix"
  have sq: "square n ?m" using Cons.prems(1) by (rule square_inner_step)
  have j: "j < n" using Cons.prems(3) by simp
  have step: "?m ! a ! b =
           (if (a = i \<and> b = j) \<or> (a = j \<and> b = i)
            then distance_between (locations ! i) (locations ! j)
            else matrix ! a ! b)"
    using nth_inner_step [OF Cons.prems(1,2) j Cons.prems(4,5)] .
  have ih: "square n (fold (matrix_inner_step locations i) js ?m)
         \<and> fold (matrix_inner_step locations i) js ?m ! a ! b =
             (if a = i \<and> b \<in> set js then distance_between (locations ! i) (locations ! b)
              else if b = i \<and> a \<in> set js then distance_between (locations ! i) (locations ! a)
              else ?m ! a ! b)"
    using Cons.IH [OF sq Cons.prems(2) _ Cons.prems(4,5)] Cons.prems(3) by simp
  have mem: "b \<in> set (j # js) \<longleftrightarrow> b = j \<or> b \<in> set js"
    "a \<in> set (j # js) \<longleftrightarrow> a = j \<or> a \<in> set js"
    by simp_all
  have unroll: "fold (matrix_inner_step locations i) (j # js) matrix
                  = fold (matrix_inner_step locations i) js ?m"
    by simp
  show ?case
    unfolding unroll mem using ih step by metis
qed

lemma outer_step:
  assumes "square n matrix" "i < n" "a < n" "b < n"
  shows "square n (matrix_outer_step locations n i matrix)
         \<and> matrix_outer_step locations n i matrix ! a ! b =
             (if a = i \<and> i < b then distance_between (locations ! i) (locations ! b)
              else if b = i \<and> i < a then distance_between (locations ! i) (locations ! a)
              else matrix ! a ! b)"
proof -
  have js: "\<forall>j\<in>set [i + 1..<n]. j < n" by simp
  have mem: "b \<in> set [i + 1..<n] \<longleftrightarrow> i < b" "a \<in> set [i + 1..<n] \<longleftrightarrow> i < a"
    using assms(3,4) by auto
  show ?thesis
    unfolding matrix_outer_step_def
    using fold_inner_step [OF assms(1,2) js assms(3,4), of locations] unfolding mem .
qed

lemma fold_outer_step:
  assumes "square n matrix" "\<forall>i\<in>set is. i < n" "a < n" "b < n"
  shows "square n (fold (matrix_outer_step locations n) is matrix)
         \<and> fold (matrix_outer_step locations n) is matrix ! a ! b =
             (if a < b \<and> a \<in> set is then distance_between (locations ! a) (locations ! b)
              else if b < a \<and> b \<in> set is then distance_between (locations ! b) (locations ! a)
              else matrix ! a ! b)"
  using assms
proof (induction "is" arbitrary: matrix)
  case Nil
  then show ?case by simp
next
  case (Cons i "is")
  let ?m = "matrix_outer_step locations n i matrix"
  have i: "i < n" using Cons.prems(2) by simp
  have step: "square n ?m \<and> ?m ! a ! b =
             (if a = i \<and> i < b then distance_between (locations ! i) (locations ! b)
              else if b = i \<and> i < a then distance_between (locations ! i) (locations ! a)
              else matrix ! a ! b)"
    using outer_step [OF Cons.prems(1) i Cons.prems(3,4)] .
  have ih: "square n (fold (matrix_outer_step locations n) is ?m)
         \<and> fold (matrix_outer_step locations n) is ?m ! a ! b =
             (if a < b \<and> a \<in> set is then distance_between (locations ! a) (locations ! b)
              else if b < a \<and> b \<in> set is then distance_between (locations ! b) (locations ! a)
              else ?m ! a ! b)"
    using Cons.IH [of ?m] step Cons.prems by simp
  have mem: "a \<in> set (i # is) \<longleftrightarrow> a = i \<or> a \<in> set is"
    "b \<in> set (i # is) \<longleftrightarrow> b = i \<or> b \<in> set is"
    by simp_all
  have unroll: "fold (matrix_outer_step locations n) (i # is) matrix
                  = fold (matrix_outer_step locations n) is ?m"
    by simp
  have order: "\<not> (a < b \<and> b < a)" by simp
  show ?case
    unfolding unroll mem using ih step order by metis
qed

lemma build_matrix_entries:
  assumes "a < length locations" "b < length locations"
  shows "build_matrix locations ! a ! b =
           (if a < b then distance_between (locations ! a) (locations ! b)
            else if b < a then distance_between (locations ! b) (locations ! a)
            else 0)"
proof -
  let ?n = "length locations"
  have sq: "square ?n (replicate ?n (replicate ?n 0))"
    by (simp add: square_def)
  have bound: "\<forall>i\<in>set [0..<?n]. i < ?n" by simp
  have mem: "a \<in> set [0..<?n]" "b \<in> set [0..<?n]" using assms by simp_all
  have zero: "replicate ?n (replicate ?n (0::real)) ! a ! b = 0" using assms by simp
  have unfold: "build_matrix locations
                  = fold (matrix_outer_step locations ?n) [0..<?n] (replicate ?n (replicate ?n 0))"
    by (simp add: build_matrix_def Let_def)
  show ?thesis
    unfolding unfold
    using fold_outer_step [OF sq bound assms, of locations] mem zero by metis
qed

lemma build_matrix_square: "square (length locations) (build_matrix locations)"
proof (cases locations)
  case Nil
  then show ?thesis by (simp add: build_matrix_def square_def)
next
  case (Cons l ls)
  let ?n = "length locations"
  have sq: "square ?n (replicate ?n (replicate ?n 0))"
    by (simp add: square_def)
  have pos: "0 < ?n" using Cons by simp
  have bound: "\<forall>i\<in>set [0..<?n]. i < ?n" by simp
  have unfold: "build_matrix locations
                  = fold (matrix_outer_step locations ?n) [0..<?n] (replicate ?n (replicate ?n 0))"
    by (simp add: build_matrix_def Let_def)
  show ?thesis
    unfolding unfold
    using fold_outer_step [OF sq bound pos pos, of locations] by blast
qed

lemma distance_between_sym: "distance_between loc1 loc2 = distance_between loc2 loc1"
  unfolding distance_between_def by (rule haversine_sym)

lemma cache_consistent_init: "cache_consistent (DistanceMatrix_init flag)"
  by (simp add: cache_consistent_def DistanceMatrix_init_def)

lemma cache_consistent_clear: "cache_consistent (clear_cache self)"
  by (simp add: cache_consistent_def clear_cache_def)

lemma compute_distance_matrix_result:
  "cache_consistent self \<Longrightarrow>
     fst (compute_distance_matrix self locations) = build_matrix locations"
  by (auto simp: compute_distance_matrix_def cache_consistent_def Let_def split: option.splits)

lemma cache_consistent_compute:
  "cache_consistent self \<Longrightarrow> cache_consistent (snd (compute_distance_matrix self locations))"
  by (auto simp: compute_distance_matrix_def cache_consistent_def Let_def split: option.splits)

text \<open>
  C4. For every list of locations, the matrix returned by \<^verbatim>\<open>compute_distance_matrix\<close>
  (freshly built, or taken from a cache that only this method has filled) is an N by N
  matrix, symmetric and with a zero diagonal: for all valid indices i and j,
  matrix[i][j] = matrix[j][i] and matrix[i][i] = 0, and each off-diagonal entry is the
  haversine distance between locations i and j.
\<close>

theorem compute_distance_matrix_symmetric_zero_diagonal:
  assumes "cache_consistent self"
    and "compute_distance_matrix self locations = (matrix, self')"
    and "i < length locations" and "j < length locations"
  shows "length matrix = length locations \<and> length (matrix ! i) = length locations
         \<and> matrix ! i ! j = matrix ! j ! i
         \<and> matrix ! i ! i = 0
         \<and> (i \<noteq> j \<longrightarrow>
              matrix ! i ! j = haversine (fst (locations ! i)) (snd (locations ! i))
                                 (fst (locations ! j)) (snd (locations ! j)))"
proof -
  have m: "matrix = build_matrix locations"
    using compute_distance_matrix_result [OF assms(1), of locations] assms(2) by simp
  have sq: "square (length locations) matrix"
    unfolding m by (rule build_matrix_square)
  have ij: "matrix ! i ! j =
           (if i < j then distance_between (locations ! i) (locations ! j)
            else if j < i then distance_between (locations ! j) (locations ! i)
            else 0)"
    unfolding m using assms(3,4) by (rule build_matrix_entries)
  have ji: "matrix ! j ! i =
           (if j < i then distance_between (locations ! j) (locations ! i)
            else if i < j then distance_between (locations ! i) (locations ! j)
            else 0)"
    unfolding m using assms(4,3) by (rule build_matrix_entries)
  have ii: "matrix ! i ! i = 0"
    unfolding m using build_matrix_entries [OF assms(3,3)] by simp
  have order: "i \<noteq> j \<longleftrightarrow> i < j \<or> j < i" "\<not> (i < j \<and> j < i)" by auto
  have off: "i \<noteq> j \<longrightarrow> matrix ! i ! j = distance_between (locations ! i) (locations ! j)"
    using ij distance_between_sym [of "locations ! j" "locations ! i"] order by metis
  have sym: "matrix ! i ! j = matrix ! j ! i"
    using ij ji order by metis
  have len: "length matrix = length locations" "length (matrix ! i) = length locations"
    using sq assms(3) by (simp_all add: square_def)
  show ?thesis
    using len sym ii off unfolding distance_between_def by blast
qed


theorem compute_distance_matrix_symmetric_zero_diagonal_witness:
  "cache_consistent (DistanceMatrix_init True)
   \<and> compute_distance_matrix (DistanceMatrix_init True) [(0, 0), (10, 20), (0, 0)]
       = ([[0, haversine 0 0 10 20, 0],
           [haversine 0 0 10 20, 0, haversine 10 20 0 0],
           [0, haversine 10 20 0 0, 0]],
          \<lparr>use_cache = True,
           cache = [[(0, 0), (10, 20), (0, 0)] \<mapsto>
                      [[0, haversine 0 0 10 20, 0],
                       [haversine 0 0 10 20, 0, haversine 10 20 0 0],
                       [0, haversine 10 20 0 0, 0]]]\<rparr>)
   \<and> haversine 10 20 0 0 = haversine 0 0 10 20"
proof -
  let ?locations = "[(0, 0), (10, 20), (0, 0)] :: location list"
  let ?matrix = "[[0, haversine 0 0 10 20, 0],
                  [haversine 0 0 10 20, 0, haversine 10 20 0 0],
                  [0, haversine 10 20 0 0, 0]]"
  let ?self' = "\<lparr>use_cache = True, cache = [?locations \<mapsto> ?matrix]\<rparr>"
  have c: "cache_consistent (DistanceMatrix_init True)"
    by (rule cache_consistent_init)
  have e: "compute_distance_matrix (DistanceMatrix_init True) ?locations = (?matrix, ?self')"
    by (simp add: compute_distance_matrix_def DistanceMatrix_init_def build_matrix_def
          matrix_outer_step_def matrix_inner_step_def set_entry_def Let_def upt_rec
          numeral_3_eq_3 numeral_2_eq_2)
  have i: "1 < length ?locations" and j: "0 < length ?locations"
    by simp_all
  show ?thesis
    using c e compute_distance_matrix_symmetric_zero_diagonal [OF c e i j] by simp
qed


subsection \<open>The 2-opt phase\<close>

lemma calculate_route_distance_length:
  "length xs = length ys \<Longrightarrow> calculate_route_distance xs = calculate_route_distance ys"
  by (auto simp: calculate_route_distance_def)

lemma length_reverse_segment:
  "i \<le> j \<Longrightarrow> length (reverse_segment xs i j) = length xs"
  by (auto simp: reverse_segment_def min_def)

lemma scan_j_none: "\<forall>j\<in>set js. i \<le> j \<Longrightarrow> scan_j xs i js = None"
proof (induction js)
  case Nil
  show ?case by simp
next
  case (Cons j js)
  have "i \<le> j" using Cons.prems by simp
  then have "calculate_route_distance (reverse_segment xs i j) = calculate_route_distance xs"
    by (intro calculate_route_distance_length length_reverse_segment)
  then show ?case using Cons by (simp add: Let_def)
qed

lemma scan_i_none: "scan_i xs is = None"
  by (induction "is") (simp_all add: scan_j_none)

lemma two_opt_pass_none: "two_opt_pass xs = None"
  by (simp add: two_opt_pass_def scan_i_none)

lemma two_opt_while_returns: "two_opt_while xs = Some xs"
  by (subst two_opt_while.simps) (simp add: two_opt_pass_none)

lemma improve_with_2opt_returns: "improve_with_2opt routes matrix = Some routes"
  by (induction routes) (simp_all add: two_opt_while_returns)

lemma improve_with_2opt_frame:
  "improve_with_2opt routes matrix = Some improved \<Longrightarrow>
     map (\<lambda>r. r\<lparr>stops := []\<rparr>) improved = map (\<lambda>r. r\<lparr>stops := []\<rparr>) routes"
  by (induction routes arbitrary: improved) (auto split: option.splits)

lemma optimize_flag_irrelevant:
  "optimize self orders vehicles True = optimize self orders vehicles False"
  by (simp add: optimize_def Let_def improve_with_2opt_returns split: prod.splits)

lemma optimize_returns:
  "\<exists>routes self'. optimize self orders vehicles flag = Some (routes, self')"
  by (cases flag)
     (auto simp: optimize_def Let_def improve_with_2opt_returns split: prod.splits)

text \<open>
  C7. For every list of vehicles and every value of the flag, \<^verbatim>\<open>optimize\<close> called with
  an empty order list returns the empty route list and leaves the optimizer, its distance
  matrix cache included, as it was: no matrix is built or stored.
\<close>

theorem optimize_empty_orders:
  "optimize self [] vehicles improve_with_2opt_flag = Some ([], self)"
  by (simp add: optimize_def)

text \<open>
  C9. For every list of input routes, the 2-opt phase returns, and it returns one route
  for each input route, in the same order, with the same \<^verbatim>\<open>vehicle_id\<close>,
  \<^verbatim>\<open>total_distance\<close>, \<^verbatim>\<open>total_time_minutes\<close>, \<^verbatim>\<open>weight_used\<close> and
  \<^verbatim>\<open>volume_used\<close>: only \<^verbatim>\<open>stops\<close> is assigned, and nothing is recomputed.
\<close>

theorem improve_with_2opt_changes_only_stops:
  "\<exists>improved. improve_with_2opt routes matrix = Some improved
     \<and> length improved = length routes
     \<and> map vehicle_id improved = map vehicle_id routes
     \<and> map total_distance improved = map total_distance routes
     \<and> map total_time_minutes improved = map total_time_minutes routes
     \<and> map weight_used improved = map weight_used routes
     \<and> map volume_used improved = map volume_used routes"
proof -
  obtain improved where i: "improve_with_2opt routes matrix = Some improved"
    using improve_with_2opt_returns by blast
  have frame: "map (\<lambda>r. r\<lparr>stops := []\<rparr>) improved = map (\<lambda>r. r\<lparr>stops := []\<rparr>) routes"
    using i by (rule improve_with_2opt_frame)
  have field: "map f improved = map f routes" if "\<And>r. f (r\<lparr>stops := []\<rparr>) = f r"
    for f :: "Route \<Rightarrow> 'a"
  proof -
    have "map f improved = map f (map (\<lambda>r. r\<lparr>stops := []\<rparr>) improved)"
      by (simp add: that)
    also have "\<dots> = map f (map (\<lambda>r. r\<lparr>stops := []\<rparr>) routes)"
      by (simp only: frame)
    also have "\<dots> = map f routes"
      by (simp add: that)
    finally show ?thesis .
  qed
  have len: "length improved = length routes"
    using arg_cong [OF frame, of length] by simp
  show ?thesis
    using i len field [of vehicle_id] field [of total_distance] field [of total_time_minutes]
      field [of weight_used] field [of volume_used]
    by simp
qed

text \<open>
  C8. For every optimizer state, orders and vehicles, \<^verbatim>\<open>optimize\<close> returns with the flag
  set and with the flag cleared, and the total travel distance of the routes returned with
  2-opt is at most that of the routes returned without it. (The two results are the same
  routes: no 2-opt pass finds a candidate that its comparison rates shorter.)
\<close>

theorem optimize_2opt_total_distance_le:
  "\<exists>routes_with self_with routes_without self_without.
     optimize self orders vehicles True = Some (routes_with, self_with)
     \<and> optimize self orders vehicles False = Some (routes_without, self_without)
     \<and> spec_total_distance orders routes_with \<le> spec_total_distance orders routes_without
     \<and> routes_with = routes_without"
proof -
  obtain routes self' where r: "optimize self orders vehicles False = Some (routes, self')"
    using optimize_returns by blast
  then have "optimize self orders vehicles True = Some (routes, self')"
    by (simp add: optimize_flag_irrelevant)
  with r show ?thesis by auto
qed


subsection \<open>The distance that 2-opt compares\<close>

definition same_place_orders :: "Order list" where
  \<comment> \<open>two orders picked up and delivered at one and the same place\<close>
  "same_place_orders =
     [\<lparr>id_Order = ''o1'', pickup_location = (10, 20), delivery_location = (10, 20),
       time_window = \<lparr>earliest = 0, latest = 720\<rparr>, weight_kg = 30, volume_m3 = 1 / 2\<rparr>,
      \<lparr>id_Order = ''o2'', pickup_location = (10, 20), delivery_location = (10, 20),
       time_window = \<lparr>earliest = 0, latest = 720\<rparr>, weight_kg = 30, volume_m3 = 1 / 2\<rparr>]"

lemma calculate_route_distance_two_stops:
  "calculate_route_distance [a, b] = EARTH_RADIUS_KM * pi / 180000"
proof -
  have "calculate_route_distance [a, b]
          = distance_between (0, 0) (0, 0) + distance_between (0, 0) (0, 1 / 1000)"
    by (simp add: calculate_route_distance_def upt_rec numeral_2_eq_2)
  also have "\<dots> = haversine 0 0 0 (1 / 1000)"
    by (simp add: distance_between_def)
  also have "\<dots> = EARTH_RADIUS_KM * radians (1 / 1000)"
    by (rule haversine_equator) simp_all
  finally show ?thesis by (simp add: radians_def)
qed

text \<open>
  C2 (the code departs from the specification). The distance that the 2-opt phase compares
  should be the sum of the stop-to-stop haversine distances over the pickup and delivery
  coordinates of the orders in the sequence; in the code it is a function of the number
  of stops alone. For the two orders of \<open>same_place_orders\<close>, whose
  four locations coincide, the stop sequence [0, 1] has travel distance 0, and
  \<^verbatim>\<open>_calculate_route_distance\<close> returns 6371 * pi / 180000, about 0.111 km: the distance
  from (0, 0) to (0, 0.001).
\<close>

theorem calculate_route_distance_ignores_orders:
  "calculate_route_distance [0, 1] = 6371 * pi / 180000
   \<and> spec_route_distance same_place_orders [0, 1] = 0
   \<and> calculate_route_distance [0, 1] \<noteq> spec_route_distance same_place_orders [0, 1]
   \<and> calculate_route_distance [0, 1] = calculate_route_distance [1, 0]"
proof -
  have code: "calculate_route_distance [0, 1] = 6371 * pi / 180000"
    by (simp add: calculate_route_distance_two_stops EARTH_RADIUS_KM_def)
  have spec: "spec_route_distance same_place_orders [0, 1] = 0"
    by (simp add: spec_route_distance_def stop_locations_def same_place_orders_def)
  have pos: "(0::real) < 6371 * pi / 180000"
    using pi_gt_zero by simp
  have swap: "calculate_route_distance [0, 1] = calculate_route_distance [1, 0]"
    by (rule calculate_route_distance_length) simp
  have neq: "calculate_route_distance [0, 1] \<noteq> spec_route_distance same_place_orders [0, 1]"
    unfolding code spec using pos by simp
  show ?thesis
    using code spec neq swap by blast
qed


subsection \<open>Invariants of the greedy construction and the salvage pass\<close>

lemma all_stops_simps [simp]:
  "all_stops [] = []"
  "all_stops (r # rs) = stops r @ all_stops rs"
  "all_stops (rs @ rs') = all_stops rs @ all_stops rs'"
  by (simp_all add: all_stops_def)

lemma stops_calculate_route_metrics [simp]:
  "stops (calculate_route_metrics route_orders orders vehicle matrix) = route_orders"
  by (simp add: calculate_route_metrics_def Let_def split: prod.splits option.splits)

lemma assign_nearest_mset:
  "assign_nearest orders vehicle route_orders cw cv loc unassigned = (route_orders', unassigned')
     \<Longrightarrow> mset route_orders' + mset unassigned' = mset route_orders + mset unassigned"
proof (induction orders vehicle route_orders cw cv loc unassigned
        arbitrary: route_orders' unassigned' rule: assign_nearest.induct)
  case (1 orders vehicle route_orders cw cv loc unassigned)
  show ?case
  proof (cases "unassigned = []")
    case True
    then show ?thesis using "1.prems" by (simp add: assign_nearest.simps)
  next
    case False
    show ?thesis
    proof (cases "select_best orders vehicle cw cv loc unassigned None")
      case None
      then show ?thesis using False "1.prems" by (simp add: assign_nearest.simps)
    next
      case (Some best)
      obtain idx d where best: "best = (idx, d)" by (cases best)
      have mem: "idx \<in> set unassigned"
        using select_best_member [of orders vehicle cw cv loc unassigned None idx d] Some best
        by simp
      let ?order = "orders ! idx"
      have step: "assign_nearest orders vehicle (route_orders @ [idx])
                    (cw + weight_kg ?order) (cv + volume_m3 ?order) (delivery_location ?order)
                    (remove1 idx unassigned) = (route_orders', unassigned')"
        using "1.prems" False Some best
        by (subst (asm) assign_nearest.simps) (simp add: Let_def)
      have "mset route_orders' + mset unassigned'
              = mset (route_orders @ [idx]) + mset (remove1 idx unassigned)"
        using "1.IH" [OF False Some best [symmetric] refl step] .
      also have "\<dots> = mset route_orders + mset unassigned"
        using mem by simp
      finally show ?thesis .
    qed
  qed
qed

lemma vehicle_loop_mset:
  "vehicle_loop orders matrix vehicles routes unassigned = (routes', unassigned')
     \<Longrightarrow> mset (all_stops routes') + mset unassigned'
         = mset (all_stops routes) + mset unassigned"
proof (induction vehicles arbitrary: routes unassigned)
  case Nil
  then show ?case by simp
next
  case (Cons vehicle rest)
  show ?case
  proof (cases "unassigned = []")
    case True
    then show ?thesis using Cons.prems by simp
  next
    case False
    obtain ro un where a: "assign_nearest orders vehicle [] 0 0 (start_location vehicle) unassigned
                             = (ro, un)"
      by (cases "assign_nearest orders vehicle [] 0 0 (start_location vehicle) unassigned")
    have m: "mset ro + mset un = mset unassigned"
      using assign_nearest_mset [OF a] by simp
    show ?thesis
    proof (cases "ro = []")
      case True
      then have "vehicle_loop orders matrix rest routes un = (routes', unassigned')"
        using Cons.prems False a by simp
      from Cons.IH [OF this] m True show ?thesis by simp
    next
      case ne: False
      then have "vehicle_loop orders matrix rest
                   (routes @ [calculate_route_metrics ro orders vehicle matrix]) un
                 = (routes', unassigned')"
        using Cons.prems False a by simp
      from Cons.IH [OF this] m show ?thesis by (simp add: add.assoc)
    qed
  qed
qed

lemma vehicle_loop_nonempty:
  "vehicle_loop orders matrix vehicles routes unassigned = (routes', unassigned')
     \<Longrightarrow> \<forall>r\<in>set routes. stops r \<noteq> [] \<Longrightarrow> \<forall>r\<in>set routes'. stops r \<noteq> []"
proof (induction vehicles arbitrary: routes unassigned)
  case Nil
  then show ?case by simp
next
  case (Cons vehicle rest)
  show ?case
  proof (cases "unassigned = []")
    case True
    then show ?thesis using Cons.prems by simp
  next
    case False
    obtain ro un where a: "assign_nearest orders vehicle [] 0 0 (start_location vehicle) unassigned
                             = (ro, un)"
      by (cases "assign_nearest orders vehicle [] 0 0 (start_location vehicle) unassigned")
    show ?thesis
    proof (cases "ro = []")
      case True
      then have "vehicle_loop orders matrix rest routes un = (routes', unassigned')"
        using Cons.prems False a by simp
      from Cons.IH [OF this Cons.prems(2)] show ?thesis .
    next
      case ne: False
      let ?routes = "routes @ [calculate_route_metrics ro orders vehicle matrix]"
      have l: "vehicle_loop orders matrix rest ?routes un = (routes', unassigned')"
        using Cons.prems False a ne by simp
      have "\<forall>r\<in>set ?routes. stops r \<noteq> []"
        using Cons.prems(2) ne by simp
      from Cons.IH [OF l this] show ?thesis .
    qed
  qed
qed

lemma all_stops_update:
  assumes "i < length routes"
  shows "mset (all_stops (routes[i := r]))
           = mset (all_stops routes) - mset (stops (routes ! i)) + mset (stops r)"
proof -
  have a: "routes = take i routes @ (routes ! i) # drop (Suc i) routes"
    using assms by (simp add: id_take_nth_drop)
  have b: "routes[i := r] = take i routes @ r # drop (Suc i) routes"
    using assms by (simp add: upd_conv_take_nth_drop)
  have "mset (all_stops routes)
          = mset (all_stops (take i routes)) + mset (stops (routes ! i))
              + mset (all_stops (drop (Suc i) routes))"
    by (subst a) simp
  moreover have "mset (all_stops (routes[i := r]))
          = mset (all_stops (take i routes)) + mset (stops r)
              + mset (all_stops (drop (Suc i) routes))"
    by (subst b) simp
  ultimately show ?thesis by simp
qed

lemma try_vehicles_mset:
  "mset (all_stops (try_vehicles order order_idx ivs routes))
     \<subseteq># add_mset order_idx (mset (all_stops routes))"
proof (induction ivs)
  case Nil
  show ?case by simp
next
  case (Cons iv ivs)
  obtain i vehicle where iv: "iv = (i, vehicle)" by (cases iv)
  have upd: "mset (all_stops (routes[i := (routes ! i)\<lparr>stops := stops (routes ! i) @ [order_idx],
                         weight_used := w, volume_used := v\<rparr>]))
               = add_mset order_idx (mset (all_stops routes))" if "i < length routes" for w v
  proof -
    have "mset (stops (routes ! i)) \<subseteq># mset (all_stops routes)"
      using id_take_nth_drop [OF that] 
      by (metis all_stops_simps(2,3) mset_append mset_subset_eq_add_left mset_subset_eq_add_right subset_mset.order_trans)
    then show ?thesis
      by (simp add: all_stops_update [OF that])
  qed
  show ?case
    using Cons.IH by (simp add: iv Let_def upd)
qed

lemma try_vehicles_nonempty:
  "\<forall>r\<in>set routes. stops r \<noteq> [] \<Longrightarrow>
     \<forall>r\<in>set (try_vehicles order order_idx ivs routes). stops r \<noteq> []"
proof (induction ivs)
  case Nil
  then show ?case by simp
next
  case (Cons iv ivs)
  obtain i vehicle where iv: "iv = (i, vehicle)" by (cases iv)
  show ?case
    using Cons by (auto simp: iv Let_def dest!: set_update_subset_insert [THEN subsetD])
qed

lemma salvage_loop_mset:
  "mset (all_stops (salvage_loop orders vehicles unassigned routes))
     \<subseteq># mset (all_stops routes) + mset unassigned"
proof (induction unassigned arbitrary: routes)
  case Nil
  show ?case by simp
next
  case (Cons order_idx rest)
  let ?routes = "try_vehicles (orders ! order_idx) order_idx (enumerate 0 vehicles) routes"
  have "mset (all_stops (salvage_loop orders vehicles rest ?routes))
          \<subseteq># mset (all_stops ?routes) + mset rest"
    by (rule Cons.IH)
  also have "\<dots> \<subseteq># add_mset order_idx (mset (all_stops routes)) + mset rest"
    using try_vehicles_mset [of "orders ! order_idx" order_idx "enumerate 0 vehicles" routes]
    by (simp add: subset_mset.add_right_mono)
  finally show ?case by simp
qed

lemma salvage_loop_nonempty:
  "\<forall>r\<in>set routes. stops r \<noteq> [] \<Longrightarrow>
     \<forall>r\<in>set (salvage_loop orders vehicles unassigned routes). stops r \<noteq> []"
proof (induction unassigned arbitrary: routes)
  case Nil
  then show ?case by simp
next
  case (Cons order_idx rest)
  let ?routes = "try_vehicles (orders ! order_idx) order_idx (enumerate 0 vehicles) routes"
  have "\<forall>r\<in>set ?routes. stops r \<noteq> []"
    using Cons.prems by (rule try_vehicles_nonempty)
  from Cons.IH [OF this] show ?case by simp
qed

lemma nearest_neighbor_invariant:
  "mset (all_stops (nearest_neighbor_initial_solution orders vehicles matrix))
     \<subseteq># mset [0..<length orders]
   \<and> (\<forall>r\<in>set (nearest_neighbor_initial_solution orders vehicles matrix). stops r \<noteq> [])"
proof -
  obtain routes un where v: "vehicle_loop orders matrix vehicles [] [0..<length orders] = (routes, un)"
    by (cases "vehicle_loop orders matrix vehicles [] [0..<length orders]")
  have m: "mset (all_stops routes) + mset un = mset [0..<length orders]"
    using vehicle_loop_mset [OF v] by simp
  have n: "\<forall>r\<in>set routes. stops r \<noteq> []"
    using vehicle_loop_nonempty [OF v] by simp
  have nn: "nearest_neighbor_initial_solution orders vehicles matrix
              = salvage_loop orders vehicles un routes"
    by (simp add: nearest_neighbor_initial_solution_def v)
  show ?thesis
    unfolding nn using salvage_loop_mset [of orders vehicles un routes] m
      salvage_loop_nonempty [OF n] by simp
qed

text \<open>
  The greedy loop of one vehicle admits an order only if the running totals stay within
  the capacity of that vehicle, so every prefix of the stop sequence it builds is within
  that capacity.
\<close>

lemma select_best_fits:
  "select_best orders vehicle cw cv loc unassigned best = Some (idx, d) \<Longrightarrow>
     best = Some (idx, d)
     \<or> (cw + weight_kg (orders ! idx) \<le> max_weight_kg vehicle
        \<and> cv + volume_m3 (orders ! idx) \<le> max_volume_m3 vehicle)"
proof (induction unassigned arbitrary: best)
  case Nil
  then show ?case by simp
next
  case (Cons a unassigned)
  let ?fits = "\<not> (cw + weight_kg (orders ! a) > max_weight_kg vehicle
                    \<or> cv + volume_m3 (orders ! a) > max_volume_m3 vehicle)"
  let ?dist = "distance_between loc (pickup_location (orders ! a))"
  let ?closer = "case best of None \<Rightarrow> True | Some (bi, bd) \<Rightarrow> ?dist < bd"
  show ?case
  proof (cases "?fits \<and> ?closer")
    case True
    then have "select_best orders vehicle cw cv loc unassigned (Some (a, ?dist)) = Some (idx, d)"
      using Cons.prems by (simp add: Let_def)
    from Cons.IH [OF this] True show ?thesis by auto
  next
    case False
    then have "select_best orders vehicle cw cv loc unassigned best = Some (idx, d)"
      using Cons.prems by (auto simp: Let_def split: if_splits)
    from Cons.IH [OF this] show ?thesis .
  qed
qed

lemma prefixes_within_capacity_append:
  assumes "prefixes_within_capacity orders vehicle stops_list"
    and "prefix_weight orders stops_list (length stops_list) + weight_kg (orders ! idx)
           \<le> max_weight_kg vehicle"
    and "prefix_volume orders stops_list (length stops_list) + volume_m3 (orders ! idx)
           \<le> max_volume_m3 vehicle"
  shows "prefixes_within_capacity orders vehicle (stops_list @ [idx])"
  unfolding prefixes_within_capacity_def
proof
  fix k assume k: "k \<in> {1..length (stops_list @ [idx])}"
  show "prefix_weight orders (stops_list @ [idx]) k \<le> max_weight_kg vehicle
        \<and> prefix_volume orders (stops_list @ [idx]) k \<le> max_volume_m3 vehicle"
  proof (cases "k \<le> length stops_list")
    case True
    then have "take k (stops_list @ [idx]) = take k stops_list" by simp
    moreover have "k \<in> {1..length stops_list}" using k True by simp
    ultimately show ?thesis
      using assms(1) by (simp add: prefixes_within_capacity_def prefix_weight_def prefix_volume_def)
  next
    case False
    then have "take k (stops_list @ [idx]) = stops_list @ [idx]" using k by simp
    then show ?thesis
      using assms(2,3) by (simp add: prefix_weight_def prefix_volume_def)
  qed
qed

lemma assign_nearest_capacity:
  assumes "assign_nearest orders vehicle route_orders cw cv loc unassigned
             = (route_orders', unassigned')"
    and "cw = prefix_weight orders route_orders (length route_orders)"
    and "cv = prefix_volume orders route_orders (length route_orders)"
    and "prefixes_within_capacity orders vehicle route_orders"
  shows "prefixes_within_capacity orders vehicle route_orders'"
  using assms
proof (induction orders vehicle route_orders cw cv loc unassigned
        arbitrary: route_orders' unassigned' rule: assign_nearest.induct)
  case (1 orders vehicle route_orders cw cv loc unassigned)
  show ?case
  proof (cases "unassigned = []")
    case True
    then show ?thesis using "1.prems" by (simp add: assign_nearest.simps)
  next
    case False
    show ?thesis
    proof (cases "select_best orders vehicle cw cv loc unassigned None")
      case None
      then show ?thesis using False "1.prems" by (simp add: assign_nearest.simps)
    next
      case (Some best)
      obtain idx d where best: "best = (idx, d)" by (cases best)
      let ?order = "orders ! idx"
      have fits: "cw + weight_kg ?order \<le> max_weight_kg vehicle
                  \<and> cv + volume_m3 ?order \<le> max_volume_m3 vehicle"
        using select_best_fits [of orders vehicle cw cv loc unassigned None idx d] Some best
        by simp
      have step: "assign_nearest orders vehicle (route_orders @ [idx])
                    (cw + weight_kg ?order) (cv + volume_m3 ?order) (delivery_location ?order)
                    (remove1 idx unassigned) = (route_orders', unassigned')"
        using "1.prems"(1) False Some best
        by (subst (asm) assign_nearest.simps) (simp add: Let_def)
      have w: "cw + weight_kg ?order
                 = prefix_weight orders (route_orders @ [idx]) (length (route_orders @ [idx]))"
        using "1.prems"(2) by (simp add: prefix_weight_def)
      have v: "cv + volume_m3 ?order
                 = prefix_volume orders (route_orders @ [idx]) (length (route_orders @ [idx]))"
        using "1.prems"(3) by (simp add: prefix_volume_def)
      have ok: "prefixes_within_capacity orders vehicle (route_orders @ [idx])"
        using "1.prems"(4) fits unfolding "1.prems"(2,3)
        by (intro prefixes_within_capacity_append) simp_all
      show ?thesis
        using "1.IH" [OF False Some best [symmetric] refl step w v ok] .
    qed
  qed
qed

lemma greedy_route_within_capacity:
  assumes "assign_nearest orders vehicle [] 0 0 (start_location vehicle) unassigned
             = (route_orders, unassigned')"
  shows "prefixes_within_capacity orders vehicle route_orders"
  using assms
  by (rule assign_nearest_capacity)
     (simp_all add: prefix_weight_def prefix_volume_def prefixes_within_capacity_def)

subsection \<open>The optimizer on the example fleet\<close>

lemma example_vehicle_loop:
  "vehicle_loop example_orders matrix example_vehicles [] [0, 1, 2]
     = ([\<lparr>vehicle_id = ''vB'', stops = [0], total_distance = 0, total_time_minutes = 45,
          weight_used = 95, volume_used = 1\<rparr>,
         \<lparr>vehicle_id = ''vC'', stops = [1], total_distance = 0, total_time_minutes = 45,
          weight_used = 8, volume_used = 1\<rparr>], [2])"
  by (simp add: example_orders_def example_vehicles_def assign_nearest.simps Let_def
        calculate_route_metrics_def average_speed_kmh_def)

lemma example_nearest_neighbor:
  "nearest_neighbor_initial_solution example_orders example_vehicles matrix = example_routes"
proof -
  have len: "[0..<length example_orders] = [0, 1, 2]"
    by (simp add: example_orders_def upt_rec)
  show ?thesis
    unfolding nearest_neighbor_initial_solution_def len example_vehicle_loop
    by (simp add: example_orders_def example_vehicles_def example_routes_def enumerate_eq_zip upt_rec)
qed

lemma example_optimize:
  "optimize (RouteOptimizer_init False) example_orders example_vehicles flag
     = Some (example_routes, RouteOptimizer_init False)"
proof -
  have ne: "example_orders \<noteq> []" by (simp add: example_orders_def)
  show ?thesis
    by (simp add: optimize_def ne Let_def compute_distance_matrix_def RouteOptimizer_init_def
          DistanceMatrix_init_def example_nearest_neighbor improve_with_2opt_returns)
qed

subsection \<open>Properties of the routes returned by optimize\<close>

lemma optimize_routes:
  assumes "optimize self orders vehicles flag = Some (routes, self')"
  shows "routes = [] \<or> (\<exists>matrix. routes = nearest_neighbor_initial_solution orders vehicles matrix)"
  using assms
  by (auto simp: optimize_def Let_def improve_with_2opt_returns split: if_splits prod.splits)

lemma optimize_stops_mset:
  assumes "optimize self orders vehicles flag = Some (routes, self')"
  shows "mset (all_stops routes) \<subseteq># mset [0..<length orders]"
    and "\<forall>r\<in>set routes. stops r \<noteq> []"
  using optimize_routes [OF assms] nearest_neighbor_invariant [of orders vehicles]
  by auto

lemma distinct_mset_subset:
  assumes "mset xs \<subseteq># mset ys" and "distinct ys"
  shows "distinct xs"
  unfolding distinct_count_atmost_1
proof
  fix a
  have "count (mset xs) a \<le> count (mset ys) a"
    using assms(1) by (rule mset_subset_eq_count)
  also have "\<dots> \<le> 1"
    using assms(2) by (simp add: distinct_count_atmost_1)
  finally have le: "count (mset xs) a \<le> 1" .
  show "count (mset xs) a = (if a \<in> set xs then 1 else 0)"
  proof (cases "a \<in> set xs")
    case True
    then have "0 < count (mset xs) a" by (rule count_mset_gt_0)
    with le have "count (mset xs) a = 1" by linarith
    with True show ?thesis by (simp only: if_True)
  next
    case False
    then show ?thesis by simp
  qed
qed

lemma distinct_all_stops_filter:
  "distinct (all_stops routes) \<Longrightarrow>
     length (filter (\<lambda>route. order_idx \<in> set (stops route)) routes) \<le> 1"
proof (induction routes)
  case Nil
  show ?case by simp
next
  case (Cons r rs)
  have d: "distinct (all_stops rs)" and disj: "set (stops r) \<inter> set (all_stops rs) = {}"
    using Cons.prems by simp_all
  show ?case
  proof (cases "order_idx \<in> set (stops r)")
    case True
    then have "order_idx \<notin> set (all_stops rs)" using disj by blast
    then have "filter (\<lambda>route. order_idx \<in> set (stops route)) rs = []"
      by (auto simp: all_stops_def filter_empty_conv)
    then show ?thesis using True by simp
  next
    case False
    then show ?thesis using Cons.IH [OF d] by simp
  qed
qed

text \<open>
  C3. For every input to \<^verbatim>\<open>optimize\<close>, the stops of all returned routes, taken together,
  contain no order index twice; in particular each order index is in the stops of at most
  one returned route.
\<close>

theorem optimize_order_in_at_most_one_route:
  assumes "optimize self orders vehicles improve_with_2opt_flag = Some (routes, self')"
  shows "distinct (concat (map stops routes))
         \<and> length (filter (\<lambda>route. order_idx \<in> set (stops route)) routes) \<le> 1"
proof -
  have "mset (all_stops routes) \<subseteq># mset [0..<length orders]"
    using assms by (rule optimize_stops_mset)
  then have d: "distinct (all_stops routes)"
    by (rule distinct_mset_subset) (rule distinct_upt)
  then show ?thesis
    using distinct_all_stops_filter [OF d, of order_idx] by (simp add: all_stops_def)
qed

theorem optimize_order_in_at_most_one_route_witness:
  "optimize (RouteOptimizer_init False) example_orders example_vehicles True
     = Some (example_routes, RouteOptimizer_init False)
   \<and> distinct (concat (map stops example_routes))
   \<and> length (filter (\<lambda>route. 2 \<in> set (stops route)) example_routes) \<le> 1"
  using example_optimize [of True]
    optimize_order_in_at_most_one_route [OF example_optimize [of True], of 2]
  by simp

text \<open>
  C10. For every input of n orders and any vehicles, every returned route has a non-empty
  stops list, and every element i of it is an order index: 0 \<le> i < n.
\<close>

theorem optimize_stops_valid_nonempty:
  assumes "optimize self orders vehicles improve_with_2opt_flag = Some (routes, self')"
  shows "\<forall>route\<in>set routes.
           stops route \<noteq> [] \<and> (\<forall>i\<in>set (stops route). 0 \<le> i \<and> i < length orders)"
proof
  fix route assume r: "route \<in> set routes"
  have ne: "stops route \<noteq> []"
    using optimize_stops_mset(2) [OF assms] r by blast
  have "set (all_stops routes) \<subseteq> set [0..<length orders]"
    using set_mset_mono [OF optimize_stops_mset(1) [OF assms]] by simp
  moreover have "set (stops route) \<subseteq> set (all_stops routes)"
    using r by (auto simp: all_stops_def)
  ultimately have "\<forall>i\<in>set (stops route). i < length orders"
    by auto
  with ne show "stops route \<noteq> [] \<and> (\<forall>i\<in>set (stops route). 0 \<le> i \<and> i < length orders)"
    by simp
qed

theorem optimize_stops_valid_nonempty_witness:
  "optimize (RouteOptimizer_init False) example_orders example_vehicles False
     = Some (example_routes, RouteOptimizer_init False)
   \<and> example_routes ! 1 \<in> set example_routes
   \<and> stops (example_routes ! 1) \<noteq> []
   \<and> 2 \<in> set (stops (example_routes ! 1))
   \<and> (2::nat) < length example_orders"
proof -
  have r: "example_routes ! 1 \<in> set example_routes"
    by (simp add: example_routes_def)
  have s: "2 \<in> set (stops (example_routes ! 1))"
    by (simp add: example_routes_def)
  have all: "stops (example_routes ! 1) \<noteq> []
             \<and> (\<forall>i\<in>set (stops (example_routes ! 1)). 0 \<le> i \<and> i < length example_orders)"
    using optimize_stops_valid_nonempty [OF example_optimize [of False]] r by (rule bspec)
  then have "(2::nat) < length example_orders"
    using s by blast
  with all r s example_optimize [of False] show ?thesis by blast
qed

text \<open>
  C1 (the code departs from the specification). Every prefix of the stops of a returned
  route should have a cumulative weight and volume within the capacity of the vehicle
  that owns the route, stops added by the salvage pass included. The greedy phase keeps
  each route within the capacity of its vehicle (lemma \<open>greedy_route_within_capacity\<close>). The salvage pass tests
  the left-over order against \<^verbatim>\<open>routes[i]\<close> with the capacity of \<^verbatim>\<open>vehicles[i]\<close>, but
  \<^verbatim>\<open>routes\<close> holds the routes of those vehicles only that received a stop, so the two
  indices differ once a vehicle stays empty. For the example fleet, the route of vehicle
  vC (maximum weight 10) is returned with the stops [1, 2], whose cumulative weight is 16:
  order 2 was admitted with the capacity of vB.
\<close>

theorem optimize_salvage_exceeds_capacity:
  "optimize (RouteOptimizer_init False) example_orders example_vehicles True
     = Some (example_routes, RouteOptimizer_init False)
   \<and> vehicle_id (example_routes ! 1) = id_Vehicle (example_vehicles ! 2)
   \<and> stops (example_routes ! 1) = [1, 2]
   \<and> prefix_weight example_orders (stops (example_routes ! 1)) 2 = 16
   \<and> max_weight_kg (example_vehicles ! 2) = 10
   \<and> \<not> prefix_weight example_orders (stops (example_routes ! 1)) 2
          \<le> max_weight_kg (example_vehicles ! 2)
   \<and> \<not> VehicleCapacityConstraint_validate (max_weight_kg (example_vehicles ! 2))
          (max_volume_m3 (example_vehicles ! 2))
          (stop_loads example_orders (stops (example_routes ! 1)))"
proof -
  have w: "prefix_weight example_orders [1, 2] 2 = 16"
    by (simp add: prefix_weight_def example_orders_def)
  have v: "\<not> VehicleCapacityConstraint_validate 10 100 (stop_loads example_orders [1, 2])"
    by (simp add: VehicleCapacityConstraint_validate_def stop_loads_def example_orders_def
          binary64_add_int)
  show ?thesis
    using example_optimize [of True] w v
    by (simp add: example_routes_def example_vehicles_def)
qed

end
